theory Spec2Isabelle
  imports Main "HOL-Library.Finite_Map" "HOL-Library.Multiset"
begin

section \<open>JavaScript values read and written by db.js\<close>

text \<open>
  The values that flow through \<^verbatim>\<open>db.js\<close>: primitives, plain data objects (object
  literals and their structured clones) and \<^verbatim>\<open>File\<close> blobs. Functions, arrays,
  dates and symbols never occur in the module and are outside the universe.

  A number is a double. The module only tests numbers for truthiness and finiteness,
  compares them with \<^verbatim>\<open>===\<close> and takes the sign of a difference, so a finite
  double is over-approximated by a rational; \<^verbatim>\<open>+0\<close> and \<^verbatim>\<open>-0\<close>, which none of
  these operations can tell apart, are one value.
\<close>

datatype jsnum = NaN | NegInf | Fin rat | PosInf

datatype jsval =
    JUndefined
  | JNull
  | JBool bool
  | JNum jsnum
  | JStr string
  | JObj "(string, jsval) fmap"
  | JFile string string "nat list"  \<comment> \<open>a File: name, type, bytes\<close>

datatype error =
    TypeError        \<comment> \<open>property read on undefined/null, failed coercion, bad createObjectURL argument\<close>
  | DataError        \<comment> \<open>IndexedDB: the value is not a valid key\<close>
  | ProductNotFound  \<comment> \<open>\<^verbatim>\<open>new Error('Product not found')\<close>\<close>
  | OpenError        \<comment> \<open>\<^verbatim>\<open>indexedDB.open\<close> fired \<^verbatim>\<open>onerror\<close>\<close>

text \<open>ToBoolean.\<close>

fun truthy :: "jsval \<Rightarrow> bool" where
  "truthy JUndefined = False"
| "truthy JNull = False"
| "truthy (JBool b) = b"
| "truthy (JNum n) = (n \<noteq> NaN \<and> n \<noteq> Fin 0)"
| "truthy (JStr s) = (s \<noteq> [])"
| "truthy (JObj fs) = True"
| "truthy (JFile n t b) = True"

text \<open>\<^verbatim>\<open>a || b\<close>\<close>

definition js_or :: "jsval \<Rightarrow> jsval \<Rightarrow> jsval" where
  "js_or a b = (if truthy a then a else b)"

text \<open>
  \<^verbatim>\<open>a === b\<close>. Two objects are strictly equal only when they are the same reference.
  Wherever the module compares with \<^verbatim>\<open>===\<close>, one side was just read from an object
  store (a fresh structured clone) and the other is an argument or a literal, so two
  objects are never the same reference there.
\<close>

fun strict_eq :: "jsval \<Rightarrow> jsval \<Rightarrow> bool" where
  "strict_eq JUndefined JUndefined = True"
| "strict_eq JNull JNull = True"
| "strict_eq (JBool a) (JBool b) = (a = b)"
| "strict_eq (JNum a) (JNum b) = (a \<noteq> NaN \<and> a = b)"
| "strict_eq (JStr a) (JStr b) = (a = b)"
| "strict_eq _ _ = False"

definition nullish :: "jsval \<Rightarrow> bool" where
  "nullish v = (v = JUndefined \<or> v = JNull)"

text \<open>
  \<^verbatim>\<open>v.name\<close> for a \<open>v\<close> that is neither undefined nor null. On those the read
  throws; the functions below test for them wherever an argument or a lookup result is
  read, and a record held by an object store is always an object. The module reads only
  the names id, name, category, price, stock, imageMediaId, description, createdAt,
  password, role, value, blob, type and size; none of them is defined on the prototype
  of a primitive, so on a primitive the read gives undefined.
\<close>

fun get_prop :: "jsval \<Rightarrow> string \<Rightarrow> jsval" where
  "get_prop (JObj fs) k = (case fmlookup fs k of None \<Rightarrow> JUndefined | Some v \<Rightarrow> v)"
| "get_prop (JFile n t b) k =
     (if k = ''name'' then JStr n
      else if k = ''type'' then JStr t
      else if k = ''size'' then JNum (Fin (of_nat (length b)))
      else JUndefined)"
| "get_prop _ k = JUndefined"

text \<open>
  ToNumber. The conversion of a string (StringToNumber) is the engine's and is taken
  as the parameter \<open>sn\<close>. A plain object is converted through its inherited
  \<^verbatim>\<open>toString\<close>, which gives NaN; when the object has an own data property named
  toString (never callable in this universe) no primitive is found and the conversion
  throws. A File converts to NaN.
\<close>

fun to_number :: "(string \<Rightarrow> jsnum) \<Rightarrow> jsval \<Rightarrow> error + jsnum" where
  "to_number sn JUndefined = Inr NaN"
| "to_number sn JNull = Inr (Fin 0)"
| "to_number sn (JBool b) = Inr (Fin (if b then 1 else 0))"
| "to_number sn (JNum n) = Inr n"
| "to_number sn (JStr s) = Inr (sn s)"
| "to_number sn (JObj fs) =
     (if fmlookup fs ''toString'' \<noteq> None then Inl TypeError else Inr NaN)"
| "to_number sn (JFile n t b) = Inr NaN"

text \<open>\<^verbatim>\<open>Number.isFinite(v)\<close>: no coercion.\<close>

fun Number_isFinite :: "jsval \<Rightarrow> bool" where
  "Number_isFinite (JNum (Fin q)) = True"
| "Number_isFinite _ = False"

text \<open>The order of the extended reals on numbers other than NaN.\<close>

fun num_less :: "jsnum \<Rightarrow> jsnum \<Rightarrow> bool" where
  "num_less NaN _ = False"
| "num_less _ NaN = False"
| "num_less NegInf b = (b \<noteq> NegInf)"
| "num_less (Fin a) (Fin b) = (a < b)"
| "num_less (Fin a) PosInf = True"
| "num_less (Fin a) NegInf = False"
| "num_less PosInf _ = False"

text \<open>
  \<^verbatim>\<open>a - b\<close> on numbers. The difference of two finite doubles is rounded, but it has
  the sign of the exact difference, and the sign is all that \<^verbatim>\<open>sort\<close> reads.
\<close>

fun num_sub :: "jsnum \<Rightarrow> jsnum \<Rightarrow> jsnum" where
  "num_sub NaN _ = NaN"
| "num_sub _ NaN = NaN"
| "num_sub (Fin a) (Fin b) = Fin (a - b)"
| "num_sub (Fin a) NegInf = PosInf"
| "num_sub (Fin a) PosInf = NegInf"
| "num_sub PosInf PosInf = NaN"
| "num_sub PosInf _ = PosInf"
| "num_sub NegInf NegInf = NaN"
| "num_sub NegInf _ = NegInf"

text \<open>
  ToString of an integer number, as \<^verbatim>\<open>'p_' + Date.now()\<close> performs it: decimal
  digits. (\<^verbatim>\<open>Date.now()\<close> stays far below \<open>10\<^sup>2\<^sup>1\<close>, where JavaScript would
  switch to exponent notation.)
\<close>

fun show_nat :: "nat \<Rightarrow> string" where
  "show_nat n =
     (if n < 10 then [''0123456789'' ! n]
      else show_nat (n div 10) @ [''0123456789'' ! (n mod 10)])"

declare show_nat.simps [simp del]

definition show_int :: "int \<Rightarrow> string" where
  "show_int i = (if i < 0 then CHR ''-'' # show_nat (nat (- i)) else show_nat (nat i))"

text \<open>
  The own enumerable properties that an object spread \<^verbatim>\<open>{...v}\<close> copies: all fields
  of a plain object, the indexed characters of a string, nothing for undefined, null,
  a boolean, a number or a File (whose name, type and size live on the prototype).
\<close>

fun own_props :: "jsval \<Rightarrow> (string, jsval) fmap" where
  "own_props (JObj fs) = fs"
| "own_props (JStr s) =
     fmap_of_list (zip (map show_nat [0..<length s]) (map (\<lambda>c. JStr [c]) s))"
| "own_props _ = fmempty"

section \<open>IndexedDB object stores\<close>

text \<open>
  A valid key is a number other than NaN or a string (dates, arrays and binary keys
  are outside the universe). Keys are ordered: numbers before strings, numbers by
  value, strings by code unit.
\<close>

datatype key = KNum jsnum | KStr string

fun to_key :: "jsval \<Rightarrow> key option" where
  "to_key (JNum n) = (if n = NaN then None else Some (KNum n))"
| "to_key (JStr s) = Some (KStr s)"
| "to_key _ = None"

fun str_less :: "string \<Rightarrow> string \<Rightarrow> bool" where
  "str_less [] [] = False"
| "str_less [] (y # ys) = True"
| "str_less (x # xs) [] = False"
| "str_less (x # xs) (y # ys) =
     ((of_char x :: nat) < of_char y \<or> (x = y \<and> str_less xs ys))"

fun key_less :: "key \<Rightarrow> key \<Rightarrow> bool" where
  "key_less (KNum a) (KNum b) = num_less a b"
| "key_less (KNum a) (KStr t) = True"
| "key_less (KStr s) (KNum b) = False"
| "key_less (KStr s) (KStr t) = str_less s t"

text \<open>
  An object store holds one record per key. \<^verbatim>\<open>put\<close> on a store with a key path
  reads the key from the record and replaces the record stored under that key, or adds
  one; it throws DataError when the key path does not yield a valid key.
  \<^verbatim>\<open>getAll\<close> returns the records in key order.
\<close>

type_synonym store = "(key \<times> jsval) list"

definition idb_get :: "store \<Rightarrow> key \<Rightarrow> jsval" where
  "idb_get st k = (case map_of st k of None \<Rightarrow> JUndefined | Some r \<Rightarrow> r)"

fun store_upd :: "key \<Rightarrow> jsval \<Rightarrow> store \<Rightarrow> store" where
  "store_upd k v [] = [(k, v)]"
| "store_upd k v (e # es) = (if fst e = k then (k, v) # es else e # store_upd k v es)"

definition idb_put :: "string \<Rightarrow> store \<Rightarrow> jsval \<Rightarrow> error + store" where
  "idb_put keyPath st v =
     (case to_key (get_prop v keyPath) of
        None \<Rightarrow> Inl DataError
      | Some k \<Rightarrow> Inr (store_upd k v st))"

definition idb_delete :: "store \<Rightarrow> key \<Rightarrow> store" where
  "idb_delete st k = filter (\<lambda>e. fst e \<noteq> k) st"

fun ins_key :: "key \<times> jsval \<Rightarrow> store \<Rightarrow> store" where
  "ins_key e [] = [e]"
| "ins_key e (x # xs) =
     (if key_less (fst x) (fst e) then x # ins_key e xs else e # x # xs)"

definition idb_getAll :: "store \<Rightarrow> jsval list" where
  "idb_getAll st = map snd (foldr ins_key st [])"

section \<open>Array.prototype.sort\<close>

text \<open>
  \<^verbatim>\<open>xs.sort(cmp)\<close>: \<open>a\<close> is placed after \<open>b\<close> when \<open>cmp a b > 0\<close>; a NaN
  result counts as 0; the sort is stable. The order of the result is defined by the
  language only when \<open>cmp\<close> is a consistent comparator; the statements about order
  below are made for such comparators only, where every conforming sort returns what
  this insertion sort returns. An exception thrown by \<open>cmp\<close> ends the sort.
\<close>

fun js_insert :: "('a \<Rightarrow> 'a \<Rightarrow> error + jsnum) \<Rightarrow> 'a \<Rightarrow> 'a list \<Rightarrow> error + 'a list" where
  "js_insert cmp x [] = Inr [x]"
| "js_insert cmp x (y # ys) =
     (case cmp x y of
        Inl e \<Rightarrow> Inl e
      | Inr v \<Rightarrow>
          if num_less (Fin 0) v
          then (case js_insert cmp x ys of Inl e \<Rightarrow> Inl e | Inr zs \<Rightarrow> Inr (y # zs))
          else Inr (x # y # ys))"

fun js_sort :: "('a \<Rightarrow> 'a \<Rightarrow> error + jsnum) \<Rightarrow> 'a list \<Rightarrow> error + 'a list" where
  "js_sort cmp [] = Inr []"
| "js_sort cmp (x # xs) =
     (case js_sort cmp xs of Inl e \<Rightarrow> Inl e | Inr ys \<Rightarrow> js_insert cmp x ys)"

section \<open>The state db.js runs in\<close>

text \<open>
  The database \<^verbatim>\<open>vkmDB\<close> with its four object stores, and the module variable
  \<^verbatim>\<open>db\<close>: the database does not exist yet (\<open>Absent\<close>), exists while \<^verbatim>\<open>db\<close> is
  still undefined (\<open>Closed\<close>, the state a page load starts in), or \<^verbatim>\<open>db\<close> holds the
  open connection (\<open>Opened\<close>).
\<close>

record database =
  products :: store
  media :: store
  settings :: store
  users :: store

datatype conn = Absent | Closed database | Opened database

text \<open>
  What the module reads from its environment is part of the state:
  \<^item> \<open>clock\<close> and \<open>ticks\<close>: the \<open>n\<close>-th call of \<^verbatim>\<open>Date.now()\<close> returns \<open>clock n\<close>;
  \<^item> \<open>randomUUID\<close>: the values \<^verbatim>\<open>crypto.randomUUID()\<close> returns, call by call, or
    \<open>None\<close> where the function is missing (\<^verbatim>\<open>crypto?.randomUUID\<close> is falsy);
  \<^item> \<open>open_fails\<close>: whether \<^verbatim>\<open>indexedDB.open\<close> fires \<^verbatim>\<open>onerror\<close>;
  \<^item> \<open>url_names\<close> and \<open>object_urls\<close>: \<^verbatim>\<open>URL.createObjectURL\<close> registers the blob
    and returns the next URL string.
\<close>

record world =
  idb :: conn
  open_fails :: bool
  localStorage :: "(string, string) fmap"
  clock :: "nat \<Rightarrow> int"
  ticks :: nat
  randomUUID :: "(nat \<Rightarrow> string) option"
  uuids :: nat
  url_names :: "nat \<Rightarrow> string"
  object_urls :: "jsval list"

definition Date_now :: "world \<Rightarrow> int \<times> world" where
  "Date_now w = (clock w (ticks w), w\<lparr>ticks := Suc (ticks w)\<rparr>)"

definition num_of_int :: "int \<Rightarrow> jsval" where
  "num_of_int t = JNum (Fin (of_int t))"

text \<open>\<^verbatim>\<open>crypto?.randomUUID ? crypto.randomUUID() : prefix + Date.now()\<close>\<close>

definition fresh_id :: "string \<Rightarrow> world \<Rightarrow> jsval \<times> world" where
  "fresh_id prefix w =
     (case randomUUID w of
        Some gen \<Rightarrow> (JStr (gen (uuids w)), w\<lparr>uuids := Suc (uuids w)\<rparr>)
      | None \<Rightarrow> (let (t, w') = Date_now w in (JStr (prefix @ show_int t), w')))"

text \<open>
  \<^verbatim>\<open>tx(storeNames, mode)\<close> calls \<^verbatim>\<open>db.transaction\<close>, which throws a TypeError while
  \<^verbatim>\<open>db\<close> is undefined. The four stores exist in every database this module created.
\<close>

definition tx :: "world \<Rightarrow> error + database" where
  "tx w = (case idb w of Opened d \<Rightarrow> Inr d | _ \<Rightarrow> Inl TypeError)"

section \<open>Schema and lifecycle\<close>

definition seed_owner :: "int \<Rightarrow> jsval" where
  "seed_owner t = JObj (fmap_of_list
     [(''username'', JStr ''VKM2009''),
      (''password'', JStr ''VKM1998''),
      (''role'', JStr ''owner''),
      (''createdAt'', num_of_int t)])"

text \<open>
  \<^verbatim>\<open>openDB\<close>. \<^verbatim>\<open>onupgradeneeded\<close> runs only when the database is created (version 0 to
  1): no store exists then, so all four are created and the owner row is seeded.
\<close>

definition openDB :: "world \<Rightarrow> (error + unit) \<times> world" where
  "openDB w =
     (if open_fails w then (Inl OpenError, w)
      else case idb w of
        Absent \<Rightarrow>
          (let (t, w1) = Date_now w in
           case idb_put ''username'' [] (seed_owner t) of
             Inl e \<Rightarrow> (Inl e, w1)
           | Inr us \<Rightarrow>
               (Inr (), w1\<lparr>idb := Opened \<lparr>products = [], media = [], settings = [], users = us\<rparr>\<rparr>))
      | Closed d \<Rightarrow> (Inr (), w\<lparr>idb := Opened d\<rparr>)
      | Opened d \<Rightarrow> (Inr (), w))"

section \<open>Media\<close>

definition media_literal :: "jsval \<Rightarrow> jsval \<Rightarrow> int \<Rightarrow> jsval" where
  "media_literal ident file t =
     JObj (fmap_of_list
       [(''id'', ident),
        (''name'', get_prop file ''name''),
        (''type'', get_prop file ''type''),
        (''size'', get_prop file ''size''),
        (''blob'', file),
        (''createdAt'', num_of_int t)])"

definition saveMedia :: "world \<Rightarrow> jsval \<Rightarrow> (error + jsval) \<times> world" where
  "saveMedia w file =
     (let (ident, w1) = fresh_id ''m_'' w in
      if nullish file then (Inl TypeError, w1)
      else
        let (t, w2) = Date_now w1;
            record = media_literal ident file t
        in case tx w2 of
             Inl e \<Rightarrow> (Inl e, w2)
           | Inr d \<Rightarrow>
               (case idb_put ''id'' (media d) record of
                  Inl e \<Rightarrow> (Inl e, w2)
                | Inr m \<Rightarrow> (Inr ident, w2\<lparr>idb := Opened (d\<lparr>media := m\<rparr>)\<rparr>)))"

text \<open>\<^verbatim>\<open>URL.createObjectURL(b)\<close>: throws unless \<open>b\<close> is a blob.\<close>

definition createObjectURL :: "world \<Rightarrow> jsval \<Rightarrow> (error + jsval) \<times> world" where
  "createObjectURL w b =
     (case b of
        JFile n t bytes \<Rightarrow>
          (Inr (JStr (url_names w (length (object_urls w)))),
           w\<lparr>object_urls := object_urls w @ [b]\<rparr>)
      | _ \<Rightarrow> (Inl TypeError, w))"

definition getMediaUrl :: "world \<Rightarrow> jsval \<Rightarrow> (error + jsval) \<times> world" where
  "getMediaUrl w ident =
     (case tx w of
        Inl e \<Rightarrow> (Inl e, w)
      | Inr d \<Rightarrow>
          (case to_key ident of
             None \<Rightarrow> (Inl DataError, w)
           | Some k \<Rightarrow>
               (let rec = idb_get (media d) k in
                if \<not> truthy rec then (Inr JNull, w)
                else createObjectURL w (get_prop rec ''blob''))))"

definition setLogo :: "world \<Rightarrow> jsval \<Rightarrow> (error + jsval) \<times> world" where
  "setLogo w file =
     (case saveMedia w file of
        (Inl e, w1) \<Rightarrow> (Inl e, w1)
      | (Inr mediaId, w1) \<Rightarrow>
          (case tx w1 of
             Inl e \<Rightarrow> (Inl e, w1)
           | Inr d \<Rightarrow>
               (case idb_put ''key'' (settings d)
                       (JObj (fmap_of_list [(''key'', JStr ''logoMediaId''), (''value'', mediaId)])) of
                  Inl e \<Rightarrow> (Inl e, w1)
                | Inr s \<Rightarrow> (Inr mediaId, w1\<lparr>idb := Opened (d\<lparr>settings := s\<rparr>)\<rparr>))))"

definition getLogoUrl :: "world \<Rightarrow> (error + jsval) \<times> world" where
  "getLogoUrl w =
     (case tx w of
        Inl e \<Rightarrow> (Inl e, w)
      | Inr d \<Rightarrow>
          (let row = idb_get (settings d) (KStr ''logoMediaId'') in
           if truthy row then getMediaUrl w (get_prop row ''value'') else (Inr JNull, w)))"

section \<open>Products\<close>

text \<open>
  The object literal of \<open>addProduct\<close>, for the input \<open>p\<close>, the id, the coerced price
  and the two readings of the clock. \<^verbatim>\<open>Number(p.stock)\<close> is evaluated only when
  \<^verbatim>\<open>p.stock\<close> is a finite number, on which \<^verbatim>\<open>Number\<close> is the identity.
\<close>

definition product_literal :: "jsval \<Rightarrow> jsval \<Rightarrow> jsnum \<Rightarrow> int \<Rightarrow> int \<Rightarrow> jsval" where
  "product_literal p ident price t1 t2 =
     JObj (fmap_of_list
       [(''id'', ident),
        (''name'', get_prop p ''name''),
        (''category'', js_or (get_prop p ''category'') (JStr ''Stationery'')),
        (''price'', JNum price),
        (''stock'',
           if Number_isFinite (get_prop p ''stock'') then get_prop p ''stock''
           else JNum (Fin 0)),
        (''imageMediaId'', js_or (get_prop p ''imageMediaId'') JNull),
        (''description'', js_or (get_prop p ''description'') (JStr [])),
        (''createdAt'', num_of_int t1),
        (''updatedAt'', num_of_int t2)])"

definition addProduct :: "(string \<Rightarrow> jsnum) \<Rightarrow> world \<Rightarrow> jsval \<Rightarrow> (error + jsval) \<times> world" where
  "addProduct sn w p =
     (if nullish p then (Inl TypeError, w)
      else
        let (ident, w1) =
              (if truthy (get_prop p ''id'') then (get_prop p ''id'', w) else fresh_id ''p_'' w)
        in case to_number sn (js_or (get_prop p ''price'') (JNum (Fin 0))) of
             Inl e \<Rightarrow> (Inl e, w1)
           | Inr price \<Rightarrow>
               (let (t1, w2) = Date_now w1;
                    (t2, w3) = Date_now w2;
                    product = product_literal p ident price t1 t2
                in case tx w3 of
                     Inl e \<Rightarrow> (Inl e, w3)
                   | Inr d \<Rightarrow>
                       (case idb_put ''id'' (products d) product of
                          Inl e \<Rightarrow> (Inl e, w3)
                        | Inr ps \<Rightarrow> (Inr product, w3\<lparr>idb := Opened (d\<lparr>products := ps\<rparr>)\<rparr>))))"

text \<open>
  \<^verbatim>\<open>{ ...existing, ...updates, updatedAt: Date.now() }\<close>: later properties overwrite
  earlier ones.
\<close>

definition merge_update :: "jsval \<Rightarrow> jsval \<Rightarrow> int \<Rightarrow> jsval" where
  "merge_update existing updates t =
     JObj (fmupd ''updatedAt'' (num_of_int t)
             (fmadd (own_props existing) (own_props updates)))"

definition updateProduct :: "world \<Rightarrow> jsval \<Rightarrow> jsval \<Rightarrow> (error + jsval) \<times> world" where
  "updateProduct w ident updates =
     (case tx w of
        Inl e \<Rightarrow> (Inl e, w)
      | Inr d \<Rightarrow>
          (case to_key ident of
             None \<Rightarrow> (Inl DataError, w)
           | Some k \<Rightarrow>
               (let existing = idb_get (products d) k in
                if \<not> truthy existing then (Inl ProductNotFound, w)
                else
                  let (t, w1) = Date_now w;
                      next = merge_update existing updates t
                  in case idb_put ''id'' (products d) next of
                       Inl e \<Rightarrow> (Inl e, w1)
                     | Inr ps \<Rightarrow> (Inr next, w1\<lparr>idb := Opened (d\<lparr>products := ps\<rparr>)\<rparr>))))"

definition deleteProduct :: "world \<Rightarrow> jsval \<Rightarrow> (error + unit) \<times> world" where
  "deleteProduct w ident =
     (case tx w of
        Inl e \<Rightarrow> (Inl e, w)
      | Inr d \<Rightarrow>
          (case to_key ident of
             None \<Rightarrow> (Inl DataError, w)
           | Some k \<Rightarrow> (Inr (), w\<lparr>idb := Opened (d\<lparr>products := idb_delete (products d) k\<rparr>)\<rparr>)))"

text \<open>\<^verbatim>\<open>(a, b) => b.createdAt - a.createdAt\<close>\<close>

definition by_createdAt_desc :: "(string \<Rightarrow> jsnum) \<Rightarrow> jsval \<Rightarrow> jsval \<Rightarrow> error + jsnum" where
  "by_createdAt_desc sn a b =
     (case to_number sn (get_prop b ''createdAt'') of
        Inl e \<Rightarrow> Inl e
      | Inr x \<Rightarrow>
          (case to_number sn (get_prop a ''createdAt'') of
             Inl e \<Rightarrow> Inl e
           | Inr y \<Rightarrow> Inr (num_sub x y)))"

text \<open>\<^verbatim>\<open>p => !filter.category || p.category === filter.category\<close>\<close>

definition category_matches :: "jsval \<Rightarrow> jsval \<Rightarrow> bool" where
  "category_matches flt p =
     (\<not> truthy (get_prop flt ''category'')
      \<or> strict_eq (get_prop p ''category'') (get_prop flt ''category''))"

text \<open>
  \<open>listProducts\<close>: an undefined argument takes the default \<^verbatim>\<open>{}\<close>; with a null
  argument the filter callback throws on the first record it is called on.
\<close>

definition listProducts :: "(string \<Rightarrow> jsnum) \<Rightarrow> world \<Rightarrow> jsval \<Rightarrow> (error + jsval list) \<times> world" where
  "listProducts sn w arg =
     (let flt = (if arg = JUndefined then JObj fmempty else arg) in
      case tx w of
        Inl e \<Rightarrow> (Inl e, w)
      | Inr d \<Rightarrow>
          (let all = idb_getAll (products d) in
           if all \<noteq> [] \<and> nullish flt then (Inl TypeError, w)
           else (js_sort (by_createdAt_desc sn) (filter (category_matches flt) all), w)))"

section \<open>Settings and business info\<close>

definition setBusinessInfo :: "world \<Rightarrow> jsval \<Rightarrow> (error + unit) \<times> world" where
  "setBusinessInfo w info =
     (case tx w of
        Inl e \<Rightarrow> (Inl e, w)
      | Inr d \<Rightarrow>
          (case idb_put ''key'' (settings d)
                  (JObj (fmap_of_list [(''key'', JStr ''business''), (''value'', info)])) of
             Inl e \<Rightarrow> (Inl e, w)
           | Inr s \<Rightarrow> (Inr (), w\<lparr>idb := Opened (d\<lparr>settings := s\<rparr>)\<rparr>)))"

text \<open>\<^verbatim>\<open>row?.value || null\<close>\<close>

definition getBusinessInfo :: "world \<Rightarrow> (error + jsval) \<times> world" where
  "getBusinessInfo w =
     (case tx w of
        Inl e \<Rightarrow> (Inl e, w)
      | Inr d \<Rightarrow>
          (let row = idb_get (settings d) (KStr ''business'') in
           (Inr (js_or (if nullish row then JUndefined else get_prop row ''value'') JNull), w)))"

section \<open>Owner login\<close>

definition session_key :: string where
  "session_key = ''vkm_owner_logged_in''"

definition loginOwner :: "world \<Rightarrow> jsval \<Rightarrow> jsval \<Rightarrow> (error + bool) \<times> world" where
  "loginOwner w username password =
     (case tx w of
        Inl e \<Rightarrow> (Inl e, w)
      | Inr d \<Rightarrow>
          (case to_key username of
             None \<Rightarrow> (Inl DataError, w)
           | Some k \<Rightarrow>
               (let user = idb_get (users d) k;
                    ok = (truthy user
                          \<and> strict_eq (get_prop user ''password'') password
                          \<and> strict_eq (get_prop user ''role'') (JStr ''owner''))
                in (Inr ok,
                    if ok then w\<lparr>localStorage := fmupd session_key ''1'' (localStorage w)\<rparr>
                    else w))))"

definition logoutOwner :: "world \<Rightarrow> world" where
  "logoutOwner w = w\<lparr>localStorage := fmdrop session_key (localStorage w)\<rparr>"

definition isOwner :: "world \<Rightarrow> bool" where
  "isOwner w = (fmlookup (localStorage w) session_key = Some ''1'')"

section \<open>init\<close>

definition default_business :: jsval where
  "default_business = JObj (fmap_of_list
     [(''name'', JStr ''VKM Associates''),
      (''owner'', JStr ''Manorma Sharma''),
      (''address'', JStr ''Siwala Adalhat, Mirzapur, Uttar Pradesh''),
      (''coords'', JObj (fmap_of_list
         [(''lat'', JNum (Fin (25083 / 1000))), (''lng'', JNum (Fin (82777 / 1000)))]))])"

definition init :: "world \<Rightarrow> (error + bool) \<times> world" where
  "init w =
     (case (case idb w of Opened d \<Rightarrow> (Inr (), w) | _ \<Rightarrow> openDB w) of
        (Inl e, w1) \<Rightarrow> (Inl e, w1)
      | (Inr u, w1) \<Rightarrow>
          (case getBusinessInfo w1 of
             (Inl e, w2) \<Rightarrow> (Inl e, w2)
           | (Inr existing, w2) \<Rightarrow>
               if \<not> truthy existing
               then (case setBusinessInfo w2 default_business of
                       (Inl e, w3) \<Rightarrow> (Inl e, w3)
                     | (Inr u', w3) \<Rightarrow> (Inr True, w3))
               else (Inr True, w2)))"

section \<open>Notions the properties are stated with\<close>

text \<open>
  The users store holds, under the username \<open>u\<close>, a record whose password is exactly
  \<open>pw\<close> and whose role is \<^verbatim>\<open>"owner"\<close>.
\<close>

definition owner_record :: "database \<Rightarrow> string \<Rightarrow> string \<Rightarrow> bool" where
  "owner_record d u pw =
     (case map_of (users d) (KStr u) of
        Some (JObj fs) \<Rightarrow>
          fmlookup fs ''password'' = Some (JStr pw) \<and> fmlookup fs ''role'' = Some (JStr ''owner'')
      | _ \<Rightarrow> False)"

text \<open>
  Well-formedness of the products store: one record per key; every record stored under
  the key its \<open>id\<close> field gives; every record stamped with a number as \<open>createdAt\<close>.
\<close>

definition unique_keys :: "store \<Rightarrow> bool" where
  "unique_keys st = distinct (map fst st)"

definition keyed_by_id :: "store \<Rightarrow> bool" where
  "keyed_by_id st = list_all (\<lambda>e. to_key (get_prop (snd e) ''id'') = Some (fst e)) st"

fun is_stamp :: "jsval \<Rightarrow> bool" where
  "is_stamp (JNum n) = (n \<noteq> NaN)"
| "is_stamp _ = False"

definition stamped :: "store \<Rightarrow> bool" where
  "stamped st = list_all (\<lambda>e. is_stamp (get_prop (snd e) ''createdAt'')) st"

text \<open>The creation time of a record, and lists ordered by it, newest first.\<close>

definition created :: "jsval \<Rightarrow> jsnum" where
  "created r = (case get_prop r ''createdAt'' of JNum n \<Rightarrow> n | _ \<Rightarrow> NaN)"

definition newest_first :: "jsval list \<Rightarrow> bool" where
  "newest_first rs = sorted_wrt (\<lambda>a b. \<not> num_less (created a) (created b)) rs"

text \<open>The record \<open>r\<close> carries the id \<open>k\<close>.\<close>

definition has_id :: "key \<Rightarrow> jsval \<Rightarrow> bool" where
  "has_id k r = (to_key (get_prop r ''id'') = Some k)"

text \<open>The settings store holds a business info that \<open>init\<close> reads as present.\<close>

definition has_business :: "database \<Rightarrow> bool" where
  "has_business d =
     (case map_of (settings d) (KStr ''business'') of
        Some row \<Rightarrow> \<not> nullish row \<and> truthy (get_prop row ''value'')
      | None \<Rightarrow> False)"

text \<open>
  The database as \<open>openDB\<close> creates it at time \<open>t\<close>, and a database after the default
  business info is written to it.
\<close>

definition created_db :: "int \<Rightarrow> database" where
  "created_db t = \<lparr>products = [], media = [], settings = [],
                   users = [(KStr ''VKM2009'', seed_owner t)]\<rparr>"

definition with_default_business :: "database \<Rightarrow> database" where
  "with_default_business d =
     d\<lparr>settings := store_upd (KStr ''business'')
          (JObj (fmap_of_list [(''key'', JStr ''business''), (''value'', default_business)]))
          (settings d)\<rparr>"

section \<open>Calls of the public interface\<close>

text \<open>
  One constructor per function of \<^verbatim>\<open>window.VKM\<close>, and the state a call leaves, whether
  it returned or threw.
\<close>

datatype call =
    Init
  | SaveMedia jsval
  | GetMediaUrl jsval
  | SetLogo jsval
  | GetLogoUrl
  | AddProduct jsval
  | UpdateProduct jsval jsval
  | DeleteProduct jsval
  | ListProducts jsval
  | SetBusinessInfo jsval
  | GetBusinessInfo
  | LoginOwner jsval jsval
  | LogoutOwner
  | IsOwner

fun run :: "(string \<Rightarrow> jsnum) \<Rightarrow> world \<Rightarrow> call \<Rightarrow> world" where
  "run sn w Init = snd (init w)"
| "run sn w (SaveMedia f) = snd (saveMedia w f)"
| "run sn w (GetMediaUrl i) = snd (getMediaUrl w i)"
| "run sn w (SetLogo f) = snd (setLogo w f)"
| "run sn w GetLogoUrl = snd (getLogoUrl w)"
| "run sn w (AddProduct p) = snd (addProduct sn w p)"
| "run sn w (UpdateProduct i u) = snd (updateProduct w i u)"
| "run sn w (DeleteProduct i) = snd (deleteProduct w i)"
| "run sn w (ListProducts f) = snd (listProducts sn w f)"
| "run sn w (SetBusinessInfo i) = snd (setBusinessInfo w i)"
| "run sn w GetBusinessInfo = snd (getBusinessInfo w)"
| "run sn w (LoginOwner u p) = snd (loginOwner w u p)"
| "run sn w LogoutOwner = logoutOwner w"
| "run sn w IsOwner = w"

text \<open>The products collection of a state (empty while the database does not exist).\<close>

definition products_of :: "world \<Rightarrow> store" where
  "products_of w = (case idb w of Absent \<Rightarrow> [] | Closed d \<Rightarrow> products d | Opened d \<Rightarrow> products d)"

text \<open>Every product is stored under its own id, and no two under the same.\<close>

definition ids_unique :: "world \<Rightarrow> bool" where
  "ids_unique w = (unique_keys (products_of w) \<and> keyed_by_id (products_of w))"

text \<open>What a call may do to the products collection: nothing, one put, or one delete.\<close>

inductive products_step :: "store \<Rightarrow> store \<Rightarrow> bool" where
  same: "products_step st st"
| put: "idb_put ''id'' st v = Inr st' \<Longrightarrow> products_step st st'"
| delete: "products_step st (idb_delete st k)"

section \<open>Product inputs as the specification describes them\<close>











section \<open>Example states\<close>

text \<open>
  The environment of the examples: a clock that starts at 1000 and advances by one at
  every reading, and generators of ids and of object URLs.
\<close>

definition ex_clock :: "nat \<Rightarrow> int" where
  "ex_clock n = 1000 + int n"

definition ex_uuid :: "nat \<Rightarrow> string" where
  "ex_uuid n = replicate (Suc n) CHR ''u''"

definition ex_url :: "nat \<Rightarrow> string" where
  "ex_url n = ''blob:'' @ replicate (Suc n) CHR ''b''"

definition ex_business_row :: jsval where
  "ex_business_row =
     JObj (fmap_of_list [(''key'', JStr ''business''), (''value'', default_business)])"

text \<open>
  A stand-in for the engine's StringToNumber in the examples, none of which converts a
  string that is not empty.
\<close>

definition ex_sn :: "string \<Rightarrow> jsnum" where
  "ex_sn s = (if s = [] then Fin 0 else NaN)"

text \<open>A page loaded for the first time: no database yet, the clock at 1000.\<close>

definition ex_fresh :: world where
  "ex_fresh = \<lparr>idb = Absent, open_fails = False, localStorage = fmempty,
               clock = ex_clock, ticks = 0,
               randomUUID = Some ex_uuid, uuids = 0,
               url_names = ex_url, object_urls = []\<rparr>"

text \<open>The state after the first \<open>init\<close> of a page whose clock started at 1000.\<close>

definition ex_db :: database where
  "ex_db = \<lparr>products = [], media = [],
            settings = [(KStr ''business'', ex_business_row)],
            users = [(KStr ''VKM2009'', seed_owner 1000)]\<rparr>"

definition ex_world :: world where
  "ex_world = \<lparr>idb = Opened ex_db, open_fails = False, localStorage = fmempty,
               clock = ex_clock, ticks = 1,
               randomUUID = Some ex_uuid, uuids = 0,
               url_names = ex_url, object_urls = []\<rparr>"

text \<open>The input of the first product.\<close>

definition ex_pen_input :: jsval where
  "ex_pen_input = JObj (fmap_of_list
     [(''name'', JStr ''Pen''), (''price'', JNum (Fin 12)), (''stock'', JNum (Fin 40))])"

text \<open>
  A product as \<open>addProduct\<close> stores it for the input
  \<^verbatim>\<open>{name: "Pen", price: 12, stock: 40}\<close> in \<open>ex_world\<close>, and the state after that call.
\<close>

definition ex_pen :: jsval where
  "ex_pen = JObj (fmap_of_list
     [(''id'', JStr ''u''),
      (''name'', JStr ''Pen''),
      (''category'', JStr ''Stationery''),
      (''price'', JNum (Fin 12)),
      (''stock'', JNum (Fin 40)),
      (''imageMediaId'', JNull),
      (''description'', JStr []),
      (''createdAt'', JNum (Fin 1001)),
      (''updatedAt'', JNum (Fin 1002))])"

definition ex_shop_db :: database where
  "ex_shop_db = \<lparr>products = [(KStr ''u'', ex_pen)], media = [],
                 settings = [(KStr ''business'', ex_business_row)],
                 users = [(KStr ''VKM2009'', seed_owner 1000)]\<rparr>"

definition ex_shop :: world where
  "ex_shop = \<lparr>idb = Opened ex_shop_db, open_fails = False, localStorage = fmempty,
              clock = ex_clock, ticks = 3,
              randomUUID = Some ex_uuid, uuids = 1,
              url_names = ex_url, object_urls = []\<rparr>"

text \<open>An input for \<open>addProduct\<close> that supplies the id of the stored pen.\<close>

definition ex_pencil :: jsval where
  "ex_pencil = JObj (fmap_of_list [(''id'', JStr ''u''), (''name'', JStr ''Pencil'')])"

text \<open>
  Updates that name an id and a creation time, and the record \<open>updateProduct\<close> merges
  from the stored pen and them at time 1003.
\<close>

definition ex_rekey :: jsval where
  "ex_rekey = JObj (fmap_of_list [(''id'', JStr ''v''), (''createdAt'', JNum (Fin 5))])"

definition ex_rekeyed :: jsval where
  "ex_rekeyed = JObj (fmap_of_list
     [(''id'', JStr ''v''),
      (''name'', JStr ''Pen''),
      (''category'', JStr ''Stationery''),
      (''price'', JNum (Fin 12)),
      (''stock'', JNum (Fin 40)),
      (''imageMediaId'', JNull),
      (''description'', JStr []),
      (''createdAt'', JNum (Fin 5)),
      (''updatedAt'', JNum (Fin 1003))])"

text \<open>
  The same shop when every call so far fell into one millisecond: the clock reads 1000
  at every call.
\<close>

definition still_clock :: "nat \<Rightarrow> int" where
  "still_clock n = 1000"

definition ex_quick_pen :: jsval where
  "ex_quick_pen = JObj (fmap_of_list
     [(''id'', JStr ''u''),
      (''name'', JStr ''Pen''),
      (''category'', JStr ''Stationery''),
      (''price'', JNum (Fin 12)),
      (''stock'', JNum (Fin 40)),
      (''imageMediaId'', JNull),
      (''description'', JStr []),
      (''createdAt'', JNum (Fin 1000)),
      (''updatedAt'', JNum (Fin 1000))])"

definition ex_quick_db :: database where
  "ex_quick_db = \<lparr>products = [(KStr ''u'', ex_quick_pen)], media = [],
                  settings = [(KStr ''business'', ex_business_row)],
                  users = [(KStr ''VKM2009'', seed_owner 1000)]\<rparr>"

definition ex_quick_shop :: world where
  "ex_quick_shop = \<lparr>idb = Opened ex_quick_db, open_fails = False, localStorage = fmempty,
                    clock = still_clock, ticks = 3,
                    randomUUID = Some ex_uuid, uuids = 1,
                    url_names = ex_url, object_urls = []\<rparr>"

definition ex_reprice :: jsval where
  "ex_reprice = JObj (fmap_of_list [(''price'', JNum (Fin 15))])"

definition ex_quick_repriced :: jsval where
  "ex_quick_repriced = JObj (fmap_of_list
     [(''id'', JStr ''u''),
      (''name'', JStr ''Pen''),
      (''category'', JStr ''Stationery''),
      (''price'', JNum (Fin 15)),
      (''stock'', JNum (Fin 40)),
      (''imageMediaId'', JNull),
      (''description'', JStr []),
      (''createdAt'', JNum (Fin 1000)),
      (''updatedAt'', JNum (Fin 1000))])"





section \<open>Facts about the model\<close>

subsection \<open>Values and object stores\<close>

lemma strict_eq_JStr: "strict_eq v (JStr s) = (v = JStr s)"
  by (cases v) auto

lemma get_prop_eq_JStr:
  "get_prop r k = JStr s \<longleftrightarrow>
     (case r of
        JObj fs \<Rightarrow> fmlookup fs k = Some (JStr s)
      | JFile n t b \<Rightarrow> (k = ''name'' \<and> s = n) \<or> (k = ''type'' \<and> s = t)
      | _ \<Rightarrow> False)"
  by (cases r) (auto split: option.splits)

lemma map_of_store_upd: "map_of (store_upd k v st) = (map_of st)(k \<mapsto> v)"
  by (induction st) (auto simp: fun_eq_iff)

lemma keys_store_upd:
  "map fst (store_upd k v st) = (if k \<in> fst ` set st then map fst st else map fst st @ [k])"
  by (induction st) auto

lemma distinct_store_upd: "distinct (map fst st) \<Longrightarrow> distinct (map fst (store_upd k v st))"
  by (simp add: keys_store_upd)

lemma set_store_upd:
  "distinct (map fst st) \<Longrightarrow> set (store_upd k v st) = insert (k, v) {e \<in> set st. fst e \<noteq> k}"
  by (induction st) (auto simp: rev_image_eqI)

lemma mset_ins_key: "mset (ins_key e xs) = add_mset e (mset xs)"
  by (induction xs) auto

lemma mset_key_sort: "mset (foldr ins_key st []) = mset st"
  by (induction st) (auto simp: mset_ins_key)

lemma mset_getAll: "mset (idb_getAll st) = mset (map snd st)"
  by (simp add: idb_getAll_def mset_key_sort)

subsection \<open>Sorting\<close>

lemma mset_js_insert: "js_insert cmp x ys = Inr zs \<Longrightarrow> mset zs = add_mset x (mset ys)"
  by (induction ys arbitrary: zs) (auto split: sum.splits if_splits)

lemma mset_js_sort: "js_sort cmp xs = Inr ys \<Longrightarrow> mset ys = mset xs"
  by (induction xs arbitrary: ys) (auto split: sum.splits dest: mset_js_insert)

lemma js_insert_total:
  "(\<And>y. y \<in> set ys \<Longrightarrow> cmp x y = Inr (f x y)) \<Longrightarrow> \<exists>zs. js_insert cmp x ys = Inr zs"
  by (induction ys) (auto split: sum.splits)

lemma js_sort_total:
  "(\<And>a b. a \<in> set xs \<Longrightarrow> b \<in> set xs \<Longrightarrow> cmp a b = Inr (f a b)) \<Longrightarrow>
   \<exists>ys. js_sort cmp xs = Inr ys"
proof (induction xs)
  case Nil
  then show ?case by simp
next
  case (Cons x xs)
  then obtain ys where ys: "js_sort cmp xs = Inr ys" by auto
  have "set ys = set xs" using mset_js_sort [OF ys] by (metis mset_eq_setD)
  then have "\<exists>zs. js_insert cmp x ys = Inr zs"
    using Cons.prems by (intro js_insert_total [where f = f]) auto
  then show ?case using ys by auto
qed

lemma num_less_sub:
  "a \<noteq> NaN \<Longrightarrow> b \<noteq> NaN \<Longrightarrow> num_less (Fin 0) (num_sub a b) = num_less b a"
  by (cases a; cases b) auto

lemma num_less_trans: "num_less a b \<Longrightarrow> num_less b c \<Longrightarrow> num_less a c"
  by (cases a; cases b; cases c) auto

lemma num_not_less_trans:
  "b \<noteq> NaN \<Longrightarrow> \<not> num_less a b \<Longrightarrow> \<not> num_less b c \<Longrightarrow> \<not> num_less a c"
  by (cases a; cases b; cases c) auto

lemma num_less_asym: "num_less a b \<Longrightarrow> \<not> num_less b a"
  by (cases a; cases b) auto

lemma set_js_insert: "js_insert cmp x ys = Inr zs \<Longrightarrow> set zs = insert x (set ys)"
  using mset_js_insert [of cmp x ys zs] by (metis mset_eq_setD set_mset_add_mset_insert set_mset_mset)

lemma set_js_sort: "js_sort cmp xs = Inr ys \<Longrightarrow> set ys = set xs"
  using mset_js_sort [of cmp xs ys] by (metis mset_eq_setD)

lemma js_insert_step:
  "cmp x y = Inr v \<Longrightarrow>
   js_insert cmp x (y # ys) =
     (if num_less (Fin 0) v
      then (case js_insert cmp x ys of Inl e \<Rightarrow> Inl e | Inr zs \<Rightarrow> Inr (y # zs))
      else Inr (x # y # ys))"
  by simp

lemma js_insert_sorted:
  assumes nan: "c x \<noteq> NaN" "\<And>y. y \<in> set ys \<Longrightarrow> c y \<noteq> NaN"
    and cmp: "\<And>y. y \<in> set ys \<Longrightarrow> cmp x y = Inr (num_sub (c y) (c x))"
    and sorted: "sorted_wrt (\<lambda>a b. \<not> num_less (c a) (c b)) ys"
    and ins: "js_insert cmp x ys = Inr zs"
  shows "sorted_wrt (\<lambda>a b. \<not> num_less (c a) (c b)) zs"
  using nan(2) cmp sorted ins
proof (induction ys arbitrary: zs)
  case Nil
  then show ?case by auto
next
  case (Cons y ys)
  have cy: "c y \<noteq> NaN" using Cons.prems(1) by simp
  have cxy: "cmp x y = Inr (num_sub (c y) (c x))" using Cons.prems(2) by simp
  have step: "js_insert cmp x (y # ys) =
     (if num_less (c x) (c y)
      then (case js_insert cmp x ys of Inl e \<Rightarrow> Inl e | Inr zs \<Rightarrow> Inr (y # zs))
      else Inr (x # y # ys))"
    using js_insert_step [of cmp x y _ ys, OF cxy] num_less_sub [OF cy nan(1)] by simp
  have y_first: "\<forall>z\<in>set ys. \<not> num_less (c y) (c z)"
    and tail: "sorted_wrt (\<lambda>a b. \<not> num_less (c a) (c b)) ys"
    using Cons.prems(3) by simp_all
  show ?case
  proof (cases "num_less (c x) (c y)")
    case True
    then obtain zs' where zs': "js_insert cmp x ys = Inr zs'" and zs: "zs = y # zs'"
      using Cons.prems(4) step by (cases "js_insert cmp x ys") simp_all
    have "sorted_wrt (\<lambda>a b. \<not> num_less (c a) (c b)) zs'"
    proof (rule Cons.IH [OF _ _ tail zs'])
      show "\<And>z. z \<in> set ys \<Longrightarrow> c z \<noteq> NaN" using Cons.prems(1) by simp
      show "\<And>z. z \<in> set ys \<Longrightarrow> cmp x z = Inr (num_sub (c z) (c x))" using Cons.prems(2) by simp
    qed
    moreover have "\<forall>z\<in>set zs'. \<not> num_less (c y) (c z)"
      using set_js_insert [OF zs'] y_first num_less_asym [OF True] by simp
    ultimately show ?thesis by (simp add: zs)
  next
    case False
    then have zs: "zs = x # y # ys"
      using Cons.prems(4) step by simp
    have "\<not> num_less (c x) (c z)" if "z \<in> set ys" for z
      using num_not_less_trans [OF cy False] y_first that by blast
    then show ?thesis
      using Cons.prems(3) False by (simp add: zs)
  qed
qed

lemma js_sort_sorted:
  assumes nan: "\<And>y. y \<in> set xs \<Longrightarrow> c y \<noteq> NaN"
    and cmp: "\<And>a b. a \<in> set xs \<Longrightarrow> b \<in> set xs \<Longrightarrow> cmp a b = Inr (num_sub (c b) (c a))"
    and sort: "js_sort cmp xs = Inr ys"
  shows "sorted_wrt (\<lambda>a b. \<not> num_less (c a) (c b)) ys"
  using assms
proof (induction xs arbitrary: ys)
  case Nil
  then show ?case by simp
next
  case (Cons x xs)
  obtain ys' where ys': "js_sort cmp xs = Inr ys'" and ins: "js_insert cmp x ys' = Inr ys"
    using Cons.prems(3) by (cases "js_sort cmp xs") simp_all
  have set: "set ys' = set xs" by (rule set_js_sort [OF ys'])
  have "sorted_wrt (\<lambda>a b. \<not> num_less (c a) (c b)) ys'"
  proof (rule Cons.IH [OF _ _ ys'])
    show "\<And>y. y \<in> set xs \<Longrightarrow> c y \<noteq> NaN" using Cons.prems(1) by simp
    show "\<And>a b. a \<in> set xs \<Longrightarrow> b \<in> set xs \<Longrightarrow> cmp a b = Inr (num_sub (c b) (c a))"
      using Cons.prems(2) by simp
  qed
  then show ?case
  proof (rule js_insert_sorted [where cmp = cmp and x = x and ys = ys', rotated 3])
    show "js_insert cmp x ys' = Inr ys" by (rule ins)
    show "c x \<noteq> NaN" using Cons.prems(1) by simp
    show "\<And>y. y \<in> set ys' \<Longrightarrow> c y \<noteq> NaN" using Cons.prems(1) set by simp
    show "\<And>y. y \<in> set ys' \<Longrightarrow> cmp x y = Inr (num_sub (c y) (c x))"
      using Cons.prems(2) set by simp
  qed
qed

subsection \<open>listProducts\<close>

lemma created_stamp: "is_stamp (get_prop r ''createdAt'') \<Longrightarrow> created r \<noteq> NaN"
  by (cases "get_prop r ''createdAt''") (simp_all add: created_def)

lemma cmp_stamps:
  "is_stamp (get_prop a ''createdAt'') \<Longrightarrow> is_stamp (get_prop b ''createdAt'') \<Longrightarrow>
   by_createdAt_desc sn a b = Inr (num_sub (created b) (created a))"
  by (cases "get_prop a ''createdAt''"; cases "get_prop b ''createdAt''")
     (simp_all add: by_createdAt_desc_def created_def)

lemma set_getAll: "set (idb_getAll st) = snd ` set st"
  using mset_getAll [of st] by (metis mset_eq_setD set_map)

lemma listProducts_stamped:
  assumes w: "idb w = Opened d" and st: "stamped (products d)" and arg: "arg \<noteq> JNull"
  shows "\<exists>rs. listProducts sn w arg = (Inr rs, w)
           \<and> mset rs = mset (filter (category_matches (if arg = JUndefined then JObj fmempty else arg))
                               (map snd (products d)))
           \<and> newest_first rs"
proof -
  let ?flt = "if arg = JUndefined then JObj fmempty else arg"
  let ?kept = "filter (category_matches ?flt) (idb_getAll (products d))"
  have stamp: "is_stamp (get_prop r ''createdAt'')" if "r \<in> set ?kept" for r
    using that st by (auto simp: set_getAll stamped_def list_all_iff)
  have cmp: "by_createdAt_desc sn a b = Inr (num_sub (created b) (created a))"
    if "a \<in> set ?kept" "b \<in> set ?kept" for a b
    using that by (intro cmp_stamps stamp)
  obtain rs where rs: "js_sort (by_createdAt_desc sn) ?kept = Inr rs"
    using js_sort_total [of ?kept "by_createdAt_desc sn" "\<lambda>a b. num_sub (created b) (created a)"] cmp
    by blast
  have list: "listProducts sn w arg = (Inr rs, w)"
    using w arg rs by (simp add: listProducts_def tx_def Let_def nullish_def)
  have "mset rs = mset ?kept"
    by (rule mset_js_sort [OF rs])
  then have m: "mset rs = mset (filter (category_matches ?flt) (map snd (products d)))"
    by (simp add: mset_getAll mset_filter)
  have "sorted_wrt (\<lambda>a b. \<not> num_less (created a) (created b)) rs"
  proof (rule js_sort_sorted [where cmp = "by_createdAt_desc sn" and xs = ?kept])
    show "\<And>y. y \<in> set ?kept \<Longrightarrow> created y \<noteq> NaN" by (rule created_stamp [OF stamp])
    show "\<And>a b. a \<in> set ?kept \<Longrightarrow> b \<in> set ?kept \<Longrightarrow>
             by_createdAt_desc sn a b = Inr (num_sub (created b) (created a))" by (rule cmp)
    show "js_sort (by_createdAt_desc sn) ?kept = Inr rs" by (rule rs)
  qed
  then show ?thesis using list m by (auto simp: newest_first_def)
qed

lemma listProducts_sublist:
  assumes "idb w = Opened d" and "fst (listProducts sn w arg) = Inr rs"
  shows "set rs \<subseteq> snd ` set (products d)"
proof -
  let ?flt = "if arg = JUndefined then JObj fmempty else arg"
  have "js_sort (by_createdAt_desc sn) (filter (category_matches ?flt) (idb_getAll (products d))) = Inr rs"
    using assms by (simp add: listProducts_def tx_def Let_def split: if_splits)
  then have "set rs = set (filter (category_matches ?flt) (idb_getAll (products d)))"
    by (rule set_js_sort)
  then show ?thesis by (auto simp: set_getAll)
qed

subsection \<open>init\<close>

lemma getBusinessInfo_opened:
  assumes "idb w = Opened d"
  shows "\<exists>v. getBusinessInfo w = (Inr v, w) \<and> truthy v = has_business d"
  using assms
  by (auto simp: getBusinessInfo_def tx_def idb_get_def has_business_def js_or_def nullish_def
           split: option.splits)

lemma setBusinessInfo_default:
  assumes "idb w = Opened d"
  shows "setBusinessInfo w default_business = (Inr (), w\<lparr>idb := Opened (with_default_business d)\<rparr>)"
  using assms
  by (simp add: setBusinessInfo_def tx_def idb_put_def fmlookup_of_list with_default_business_def)

lemma has_business_default: "has_business (with_default_business d)"
  by (simp add: has_business_def with_default_business_def map_of_store_upd nullish_def
        fmlookup_of_list default_business_def)

lemma init_opened:
  assumes "idb w = Opened d"
  shows "init w = (Inr True, if has_business d then w
                             else w\<lparr>idb := Opened (with_default_business d)\<rparr>)"
proof -
  obtain v where v: "getBusinessInfo w = (Inr v, w)" "truthy v = has_business d"
    using getBusinessInfo_opened [OF assms] by blast
  show ?thesis
    using assms v setBusinessInfo_default [OF assms] by (simp add: init_def)
qed

lemma openDB_closed:
  "idb w = Closed d \<Longrightarrow> \<not> open_fails w \<Longrightarrow> openDB w = (Inr (), w\<lparr>idb := Opened d\<rparr>)"
  by (simp add: openDB_def)

lemma openDB_absent:
  "idb w = Absent \<Longrightarrow> \<not> open_fails w \<Longrightarrow>
   openDB w = (Inr (), w\<lparr>ticks := Suc (ticks w), idb := Opened (created_db (clock w (ticks w)))\<rparr>)"
  by (simp add: openDB_def Date_now_def idb_put_def seed_owner_def fmlookup_of_list created_db_def)

lemma init_closed:
  assumes "idb w = Closed d" and "\<not> open_fails w"
  shows "init w = init (w\<lparr>idb := Opened d\<rparr>)"
  using assms openDB_closed [OF assms] by (simp add: init_def)

lemma init_absent:
  assumes "idb w = Absent" and "\<not> open_fails w"
  shows "init w = init (w\<lparr>ticks := Suc (ticks w), idb := Opened (created_db (clock w (ticks w)))\<rparr>)"
  using assms openDB_absent [OF assms] by (simp add: init_def)

lemma init_open_fails:
  assumes "open_fails w" and "\<forall>d. idb w \<noteq> Opened d"
  shows "init w = (Inl OpenError, w)"
  using assms by (cases "idb w") (simp_all add: init_def openDB_def)

lemma init_opened_result:
  assumes "idb w = Opened d"
  shows "\<exists>d1. init w = (Inr True, w\<lparr>idb := Opened d1\<rparr>) \<and> has_business d1
           \<and> (has_business d \<longrightarrow> d1 = d)"
proof (cases "has_business d")
  case True
  have "w\<lparr>idb := Opened d\<rparr> = w" using assms by simp
  then show ?thesis using init_opened [OF assms] True by auto
next
  case False
  then show ?thesis using init_opened [OF assms] has_business_default by auto
qed

lemma init_result:
  assumes "init w = (Inr b, w1)"
  shows "b \<and> (\<exists>d1. idb w1 = Opened d1 \<and> has_business d1)"
proof (cases "idb w")
  case Absent
  show ?thesis
  proof (cases "open_fails w")
    case True
    then show ?thesis using assms init_open_fails [of w] Absent by simp
  next
    case False
    let ?w = "w\<lparr>ticks := Suc (ticks w), idb := Opened (created_db (clock w (ticks w)))\<rparr>"
    have "idb ?w = Opened (created_db (clock w (ticks w)))" by simp
    from init_opened_result [OF this] show ?thesis
      using assms init_absent [OF Absent False] by auto
  qed
next
  case (Closed d)
  show ?thesis
  proof (cases "open_fails w")
    case True
    then show ?thesis using assms init_open_fails [of w] Closed by simp
  next
    case False
    have "idb (w\<lparr>idb := Opened d\<rparr>) = Opened d" by simp
    from init_opened_result [OF this] show ?thesis
      using assms init_closed [OF Closed False] by auto
  qed
next
  case (Opened d)
  from init_opened_result [OF this] show ?thesis
    using assms by auto
qed

lemma init_succeeds:
  assumes "\<not> open_fails w"
  shows "\<exists>w1. init w = (Inr True, w1)"
proof (cases "idb w")
  case Absent
  let ?w = "w\<lparr>ticks := Suc (ticks w), idb := Opened (created_db (clock w (ticks w)))\<rparr>"
  have "idb ?w = Opened (created_db (clock w (ticks w)))" by simp
  from init_opened_result [OF this] show ?thesis
    using init_absent [OF Absent assms] by auto
next
  case (Closed d)
  have "idb (w\<lparr>idb := Opened d\<rparr>) = Opened d" by simp
  from init_opened_result [OF this] show ?thesis
    using init_closed [OF Closed assms] by auto
next
  case (Opened d)
  from init_opened_result [OF this] show ?thesis by auto
qed

subsection \<open>What a call does to the products collection\<close>

lemma idb_Date_now: "Date_now w = (t, w') \<Longrightarrow> idb w' = idb w"
  by (auto simp: Date_now_def)

lemma idb_fresh_id: "fresh_id p w = (i, w') \<Longrightarrow> idb w' = idb w"
  by (auto simp: fresh_id_def Date_now_def split: option.splits)

lemma products_step_iff:
  "products_step st st' \<longleftrightarrow>
     (st' = st \<or> (\<exists>v. idb_put ''id'' st v = Inr st') \<or> (\<exists>k. st' = idb_delete st k))"
  by (auto elim: products_step.cases intro: products_step.intros)

lemma products_step_refl: "idb w' = idb w \<Longrightarrow> products_step (products_of w) (products_of w')"
  by (simp add: products_step_iff products_of_def)

lemma products_step_put:
  "idb w = Opened d \<Longrightarrow> idb_put ''id'' (products d) v = Inr ps \<Longrightarrow>
   products_step (products_of w) (products_of (w'\<lparr>idb := Opened (d\<lparr>products := ps\<rparr>)\<rparr>))"
  by (auto simp: products_step_iff products_of_def)

lemma step_addProduct: "products_step (products_of w) (products_of (snd (addProduct sn w p)))"
proof -
  obtain ident w1 where id: "(if truthy (get_prop p ''id'') then (get_prop p ''id'', w)
     else fresh_id ''p_'' w) = (ident, w1)" by fastforce
  have w1: "idb w1 = idb w"
    using id idb_fresh_id [of "''p_''" w ident w1] by (auto split: if_splits)
  obtain t1 w2 where t1: "Date_now w1 = (t1, w2)" by fastforce
  obtain t2 w3 where t2: "Date_now w2 = (t2, w3)" by fastforce
  have w3: "idb w3 = idb w"
    using w1 idb_Date_now [OF t1] idb_Date_now [OF t2] by simp
  show ?thesis
    using id t1 t2 w1 w3
    by (cases "idb w")
       (auto simp: addProduct_def tx_def products_step_refl products_step_put Let_def
             split: sum.splits)
qed

lemma step_updateProduct: "products_step (products_of w) (products_of (snd (updateProduct w i u)))"
proof -
  obtain t w1 where t: "Date_now w = (t, w1)" by fastforce
  have w1: "idb w1 = idb w" by (rule idb_Date_now [OF t])
  show ?thesis
    using t w1
    by (cases "idb w")
       (auto simp: updateProduct_def tx_def products_step_refl products_step_put Let_def
             split: sum.splits option.splits)
qed

lemma step_deleteProduct: "products_step (products_of w) (products_of (snd (deleteProduct w i)))"
  by (cases "idb w")
     (auto simp: deleteProduct_def tx_def products_step_iff products_of_def split: option.splits)

lemma step_listProducts: "snd (listProducts sn w f) = w"
  by (cases "idb w") (auto simp: listProducts_def tx_def Let_def)

lemma step_saveMedia: "products_of (snd (saveMedia w f)) = products_of w"
proof -
  obtain ident w1 where id: "fresh_id ''m_'' w = (ident, w1)" by fastforce
  obtain t w2 where t: "Date_now w1 = (t, w2)" by fastforce
  have w2: "idb w1 = idb w" "idb w2 = idb w"
    using idb_fresh_id [OF id] idb_Date_now [OF t] by simp_all
  show ?thesis
    using id t w2
    by (cases "idb w")
       (auto simp: saveMedia_def tx_def products_of_def Let_def split: sum.splits)
qed

lemma step_getMediaUrl: "idb (snd (getMediaUrl w i)) = idb w"
  by (cases "idb w")
     (auto simp: getMediaUrl_def tx_def createObjectURL_def Let_def
           split: option.splits jsval.splits)

lemma step_setLogo: "products_of (snd (setLogo w f)) = products_of w"
proof -
  obtain r w1 where s: "saveMedia w f = (r, w1)" by fastforce
  have "products_of w1 = products_of w" using step_saveMedia [of w f] s by simp
  then show ?thesis
    using s
    by (cases "idb w1")
       (auto simp: setLogo_def tx_def products_of_def split: sum.splits)
qed

lemma step_getLogoUrl: "idb (snd (getLogoUrl w)) = idb w"
  using step_getMediaUrl [of w]
  by (cases "idb w") (auto simp: getLogoUrl_def tx_def Let_def)

lemma step_setBusinessInfo: "products_of (snd (setBusinessInfo w i)) = products_of w"
  by (cases "idb w") (auto simp: setBusinessInfo_def tx_def products_of_def split: sum.splits)

lemma step_getBusinessInfo: "snd (getBusinessInfo w) = w"
  by (cases "idb w") (auto simp: getBusinessInfo_def tx_def Let_def)

lemma step_loginOwner: "idb (snd (loginOwner w u p)) = idb w"
  by (cases "idb w") (auto simp: loginOwner_def tx_def Let_def split: option.splits)

lemma step_init: "products_of (snd (init w)) = products_of w"
proof (cases "idb w")
  case Absent
  show ?thesis
  proof (cases "open_fails w")
    case True
    then show ?thesis using init_open_fails [of w] Absent by simp
  next
    case False
    show ?thesis
      using init_absent [OF Absent False] Absent
      by (simp add: init_opened [where d = "created_db (clock w (ticks w))"] products_of_def
            created_db_def with_default_business_def)
  qed
next
  case (Closed d)
  show ?thesis
  proof (cases "open_fails w")
    case True
    then show ?thesis using init_open_fails [of w] Closed by simp
  next
    case False
    show ?thesis
      using init_closed [OF Closed False] Closed
      by (simp add: init_opened [where d = d] products_of_def with_default_business_def)
  qed
next
  case (Opened d)
  then show ?thesis
    by (simp add: init_opened [OF Opened] products_of_def with_default_business_def)
qed

lemma step_run: "products_step (products_of w) (products_of (run sn w c))"
proof (cases c)
  case Init
  then show ?thesis by (simp add: step_init products_step_iff)
next
  case (SaveMedia f)
  then show ?thesis by (simp add: step_saveMedia products_step_iff)
next
  case (GetMediaUrl i)
  then show ?thesis by (simp add: products_step_refl step_getMediaUrl)
next
  case (SetLogo f)
  then show ?thesis by (simp add: step_setLogo products_step_iff)
next
  case GetLogoUrl
  then show ?thesis by (simp add: products_step_refl step_getLogoUrl)
next
  case (AddProduct p)
  then show ?thesis by (simp add: step_addProduct)
next
  case (UpdateProduct i u)
  then show ?thesis by (simp add: step_updateProduct)
next
  case (DeleteProduct i)
  then show ?thesis by (simp add: step_deleteProduct)
next
  case (ListProducts f)
  then show ?thesis by (simp add: step_listProducts products_step_iff)
next
  case (SetBusinessInfo i)
  then show ?thesis by (simp add: step_setBusinessInfo products_step_iff)
next
  case GetBusinessInfo
  then show ?thesis by (simp add: step_getBusinessInfo products_step_iff)
next
  case (LoginOwner u p)
  then show ?thesis by (simp add: products_step_refl step_loginOwner)
next
  case LogoutOwner
  then show ?thesis by (simp add: logoutOwner_def products_step_refl)
next
  case IsOwner
  then show ?thesis by (simp add: products_step_iff)
qed

lemma set_store_upd_subset: "set (store_upd k v st) \<subseteq> insert (k, v) (set st)"
  by (induction st) auto

lemma products_step_invariant:
  assumes "products_step st st'" and "unique_keys st" and "keyed_by_id st"
  shows "unique_keys st' \<and> keyed_by_id st'"
proof -
  consider "st' = st" | v where "idb_put ''id'' st v = Inr st'" | k where "st' = idb_delete st k"
    using assms(1) by (auto simp: products_step_iff)
  then show ?thesis
  proof cases
    case 1
    then show ?thesis using assms by simp
  next
    case 2
    then obtain k where k: "to_key (get_prop v ''id'') = Some k" and st': "st' = store_upd k v st"
      by (auto simp: idb_put_def split: option.splits)
    have "unique_keys st'"
      using assms(2) by (simp add: st' unique_keys_def distinct_store_upd)
    moreover have "keyed_by_id st'"
      using assms(3) k set_store_upd_subset [of k v st]
      by (auto simp: st' keyed_by_id_def list_all_iff)
    ultimately show ?thesis by simp
  next
    case 3
    then show ?thesis
      using assms(2,3)
      by (auto simp: idb_delete_def unique_keys_def keyed_by_id_def list_all_iff distinct_map_filter)
  qed
qed

subsection \<open>Ids of the listed records\<close>

lemma listProducts_submset:
  assumes "idb w = Opened d" and "fst (listProducts sn w arg) = Inr rs"
  shows "mset rs \<subseteq># mset (map snd (products d))"
proof -
  let ?flt = "if arg = JUndefined then JObj fmempty else arg"
  have "js_sort (by_createdAt_desc sn) (filter (category_matches ?flt) (idb_getAll (products d))) = Inr rs"
    using assms by (simp add: listProducts_def tx_def Let_def split: if_splits)
  then have "mset rs = mset (filter (category_matches ?flt) (idb_getAll (products d)))"
    by (rule mset_js_sort)
  also have "\<dots> \<subseteq># mset (idb_getAll (products d))"
    by simp
  finally show ?thesis by (simp add: mset_getAll)
qed

lemma distinct_count_le1: "distinct xs \<longleftrightarrow> (\<forall>a. count (mset xs) a \<le> 1)"
proof (induction xs)
  case Nil
  then show ?case by simp
next
  case (Cons x xs)
  have "x \<notin> set xs \<longleftrightarrow> count (mset xs) x = 0"
    by (simp add: count_eq_zero_iff)
  then show ?case using Cons by (auto simp: le_Suc_eq)
qed

lemma distinct_map_submset:
  assumes "distinct (map f xs)" and "mset ys \<subseteq># mset xs"
  shows "distinct (map f ys)"
proof -
  have "mset (map f ys) \<subseteq># mset (map f xs)"
    using image_mset_subseteq_mono [OF assms(2)] by simp
  then have "count (mset (map f ys)) a \<le> count (mset (map f xs)) a" for a
    by (rule mset_subset_eq_count)
  moreover have "count (mset (map f xs)) a \<le> 1" for a
    using assms(1) distinct_count_le1 [of "map f xs"] by blast
  ultimately have "count (mset (map f ys)) a \<le> 1" for a
    using order_trans by blast
  then show ?thesis using distinct_count_le1 [of "map f ys"] by blast
qed


lemma keyed_distinct_ids:
  assumes "unique_keys st" and "keyed_by_id st"
  shows "distinct (map (\<lambda>r. get_prop r ''id'') (map snd st))"
proof -
  have eq: "map (to_key \<circ> (\<lambda>e. get_prop (snd e) ''id'')) st = map (Some \<circ> fst) st"
    using assms(2) by (auto simp: keyed_by_id_def list_all_iff)
  have "distinct (map (Some \<circ> fst) st)"
    using assms(1) by (simp add: unique_keys_def distinct_map inj_on_def)
  then have "distinct (map (to_key \<circ> (\<lambda>e. get_prop (snd e) ''id'')) st)"
    unfolding eq .
  then have "distinct (map (\<lambda>e. get_prop (snd e) ''id'') st)"
    by (auto simp: distinct_map inj_on_def)
  then show ?thesis by (simp add: comp_def)
qed

lemma ids_unique_run: "ids_unique w \<Longrightarrow> ids_unique (run sn w c)"
  using products_step_invariant [OF step_run [of w sn c]] by (simp add: ids_unique_def)

lemma ids_unique_calls: "ids_unique w \<Longrightarrow> ids_unique (foldl (run sn) w cs)"
  by (induction cs arbitrary: w) (simp_all add: ids_unique_run)

subsection \<open>The results of addProduct and updateProduct\<close>

lemma addProduct_upsert:
  assumes w: "idb w = Opened d"
    and id: "truthy (get_prop p ''id'')" "to_key (get_prop p ''id'') = Some k"
    and old: "k \<in> fst ` set (products d)"
    and price: "to_number sn (js_or (get_prop p ''price'') (JNum (Fin 0))) = Inr price"
  shows "\<exists>product w' d'. addProduct sn w p = (Inr product, w') \<and> idb w' = Opened d'
            \<and> get_prop product ''id'' = get_prop p ''id''
            \<and> map fst (products d') = map fst (products d)
            \<and> map_of (products d') = (map_of (products d))(k \<mapsto> product)"
proof -
  have p: "\<not> nullish p" using id(1) by (auto simp: nullish_def)
  obtain t1 w2 where t1: "Date_now w = (t1, w2)" by fastforce
  obtain t2 w3 where t2: "Date_now w2 = (t2, w3)" by fastforce
  have w3: "idb w3 = Opened d" using idb_Date_now [OF t1] idb_Date_now [OF t2] w by simp
  let ?product = "product_literal p (get_prop p ''id'') price t1 t2"
  have pid: "get_prop ?product ''id'' = get_prop p ''id''"
    by (simp add: product_literal_def fmlookup_of_list)
  have put: "idb_put ''id'' (products d) ?product = Inr (store_upd k ?product (products d))"
    using id(2) by (simp add: idb_put_def pid)
  have add: "addProduct sn w p =
      (Inr ?product, w3\<lparr>idb := Opened (d\<lparr>products := store_upd k ?product (products d)\<rparr>)\<rparr>)"
    using p id(1) price t1 t2 w3 put by (simp add: addProduct_def tx_def Let_def)
  show ?thesis
    using add pid old by (auto simp: keys_store_upd map_of_store_upd)
qed

lemma has_id_obj: "has_id k r \<Longrightarrow> \<exists>fs. r = JObj fs"
  by (cases r) (simp_all add: has_id_def)

lemma updateProduct_stored:
  assumes w: "idb w = Opened d" and k: "to_key ident = Some k"
    and ex: "map_of (products d) k = Some (JObj fs)"
    and id: "to_key (get_prop (merge_update (JObj fs) updates (clock w (ticks w))) ''id'') = Some k'"
  shows "updateProduct w ident updates =
           (Inr (merge_update (JObj fs) updates (clock w (ticks w))),
            w\<lparr>ticks := Suc (ticks w),
              idb := Opened (d\<lparr>products :=
                store_upd k' (merge_update (JObj fs) updates (clock w (ticks w))) (products d)\<rparr>)\<rparr>)"
  using assms
  by (simp add: updateProduct_def tx_def idb_get_def Date_now_def idb_put_def Let_def)

lemma addProduct_stored:
  assumes w: "idb w = Opened d" and p: "\<not> nullish p"
    and id: "(if truthy (get_prop p ''id'') then (get_prop p ''id'', w) else fresh_id ''p_'' w)
               = (ident, w1)"
    and price: "to_number sn (js_or (get_prop p ''price'') (JNum (Fin 0))) = Inr price"
    and k: "to_key ident = Some k"
  shows "addProduct sn w p =
           (Inr (product_literal p ident price (clock w1 (ticks w1)) (clock w1 (Suc (ticks w1)))),
            w1\<lparr>ticks := Suc (Suc (ticks w1)),
               idb := Opened (d\<lparr>products :=
                 store_upd k
                   (product_literal p ident price (clock w1 (ticks w1)) (clock w1 (Suc (ticks w1))))
                   (products d)\<rparr>)\<rparr>)"
proof -
  have w1: "idb w1 = Opened d"
    using id idb_fresh_id [of "''p_''" w ident w1] w by (auto split: if_splits)
  have pid: "get_prop (product_literal p ident price t1 t2) ''id'' = ident" for t1 t2
    by (simp add: product_literal_def fmlookup_of_list)
  show ?thesis
    using p price w1 k
    by (simp add: addProduct_def id tx_def Date_now_def idb_put_def pid Let_def)
qed

subsection \<open>The example states are reached by calls\<close>

lemma init_ex_fresh: "init ex_fresh = (Inr True, ex_world)"
proof -
  have "init ex_fresh = init (ex_fresh\<lparr>ticks := Suc (ticks ex_fresh),
          idb := Opened (created_db (clock ex_fresh (ticks ex_fresh)))\<rparr>)"
    by (rule init_absent) (simp_all add: ex_fresh_def)
  also have "\<dots> = (Inr True, ex_world)"
    by (simp add: init_opened [where d = "created_db 1000"] ex_fresh_def ex_world_def ex_clock_def
      has_business_def created_db_def with_default_business_def ex_db_def ex_business_row_def)
  finally show ?thesis .
qed

lemma addProduct_ex_pen: "addProduct ex_sn ex_world ex_pen_input = (Inr ex_pen, ex_shop)"
proof -
  have p: "product_literal ex_pen_input (JStr ''u'') (Fin 12) 1001 1002 = ex_pen"
    by (simp add: product_literal_def ex_pen_input_def ex_pen_def js_or_def num_of_int_def)
  have "addProduct ex_sn ex_world ex_pen_input =
     (Inr (product_literal ex_pen_input (JStr ''u'') (Fin 12)
            (clock (ex_world\<lparr>uuids := 1\<rparr>) (ticks (ex_world\<lparr>uuids := 1\<rparr>)))
            (clock (ex_world\<lparr>uuids := 1\<rparr>) (Suc (ticks (ex_world\<lparr>uuids := 1\<rparr>))))),
      ex_world\<lparr>uuids := 1, ticks := Suc (Suc (ticks (ex_world\<lparr>uuids := 1\<rparr>))),
         idb := Opened (ex_db\<lparr>products := store_upd (KStr ''u'')
           (product_literal ex_pen_input (JStr ''u'') (Fin 12)
            (clock (ex_world\<lparr>uuids := 1\<rparr>) (ticks (ex_world\<lparr>uuids := 1\<rparr>)))
            (clock (ex_world\<lparr>uuids := 1\<rparr>) (Suc (ticks (ex_world\<lparr>uuids := 1\<rparr>)))))
           (products ex_db)\<rparr>)\<rparr>)"
    by (rule addProduct_stored)
       (simp_all add: ex_world_def ex_pen_input_def nullish_def fmlookup_of_list fresh_id_def
          ex_uuid_def js_or_def)
  also have "\<dots> = (Inr ex_pen, ex_shop)"
    by (simp add: ex_world_def ex_clock_def p ex_db_def ex_shop_def ex_shop_db_def)
  finally show ?thesis .
qed

lemma ex_shop_reachable: "foldl (run ex_sn) ex_fresh [Init, AddProduct ex_pen_input] = ex_shop"
  by (simp add: init_ex_fresh addProduct_ex_pen)


lemma ex_quick_shop_reachable:
  "foldl (run ex_sn) (ex_fresh\<lparr>clock := still_clock\<rparr>) [Init, AddProduct ex_pen_input]
     = ex_quick_shop"
proof -
  let ?w0 = "ex_fresh\<lparr>clock := still_clock\<rparr>"
  let ?w1 = "ex_world\<lparr>clock := still_clock\<rparr>"
  have "init ?w0 = init (?w0\<lparr>ticks := Suc (ticks ?w0),
          idb := Opened (created_db (clock ?w0 (ticks ?w0)))\<rparr>)"
    by (rule init_absent) (simp_all add: ex_fresh_def)
  also have "\<dots> = (Inr True, ?w1)"
    by (simp add: init_opened [where d = "created_db 1000"] ex_fresh_def ex_world_def still_clock_def
      has_business_def created_db_def with_default_business_def ex_db_def ex_business_row_def)
  finally have i: "init ?w0 = (Inr True, ?w1)" .
  have p: "product_literal ex_pen_input (JStr ''u'') (Fin 12) 1000 1000 = ex_quick_pen"
    by (simp add: product_literal_def ex_pen_input_def ex_quick_pen_def js_or_def num_of_int_def)
  have "addProduct ex_sn ?w1 ex_pen_input =
     (Inr (product_literal ex_pen_input (JStr ''u'') (Fin 12)
            (clock (?w1\<lparr>uuids := 1\<rparr>) (ticks (?w1\<lparr>uuids := 1\<rparr>)))
            (clock (?w1\<lparr>uuids := 1\<rparr>) (Suc (ticks (?w1\<lparr>uuids := 1\<rparr>))))),
      ?w1\<lparr>uuids := 1, ticks := Suc (Suc (ticks (?w1\<lparr>uuids := 1\<rparr>))),
         idb := Opened (ex_db\<lparr>products := store_upd (KStr ''u'')
           (product_literal ex_pen_input (JStr ''u'') (Fin 12)
            (clock (?w1\<lparr>uuids := 1\<rparr>) (ticks (?w1\<lparr>uuids := 1\<rparr>)))
            (clock (?w1\<lparr>uuids := 1\<rparr>) (Suc (ticks (?w1\<lparr>uuids := 1\<rparr>)))))
           (products ex_db)\<rparr>)\<rparr>)"
    by (rule addProduct_stored)
       (simp_all add: ex_world_def ex_pen_input_def nullish_def fmlookup_of_list fresh_id_def
          ex_uuid_def js_or_def)
  also have "\<dots> = (Inr ex_quick_pen, ex_quick_shop)"
    by (simp add: ex_world_def still_clock_def p ex_db_def ex_quick_shop_def ex_quick_db_def)
  finally have a: "addProduct ex_sn ?w1 ex_pen_input = (Inr ex_quick_pen, ex_quick_shop)" .
  show ?thesis by (simp add: i a)
qed

lemma merge_rekey: "merge_update ex_pen ex_rekey 1003 = ex_rekeyed"
  unfolding merge_update_def ex_pen_def ex_rekey_def ex_rekeyed_def jsval.inject
  by (rule fmap_ext) (auto simp: num_of_int_def)

lemma merge_quick_reprice: "merge_update ex_quick_pen ex_reprice 1000 = ex_quick_repriced"
  unfolding merge_update_def ex_quick_pen_def ex_reprice_def ex_quick_repriced_def jsval.inject
  by (rule fmap_ext) (auto simp: num_of_int_def)

subsection \<open>One record per id\<close>





subsection \<open>Valid inputs\<close>






subsection \<open>Calls outside the stated conditions\<close>

text \<open>
  Outside the conditions the properties below are stated under: before \<open>init\<close> has
  opened the database every store operation throws a TypeError, and a value that is no
  valid key makes IndexedDB throw a DataError before any record is read or written.
\<close>

lemma not_open_TypeError:
  assumes "\<forall>d. idb w \<noteq> Opened d"
  shows "updateProduct w ident updates = (Inl TypeError, w)"
    and "deleteProduct w ident = (Inl TypeError, w)"
    and "listProducts sn w arg = (Inl TypeError, w)"
    and "loginOwner w username password = (Inl TypeError, w)"
    and "getLogoUrl w = (Inl TypeError, w)"
  using assms
  by (cases "idb w";
      simp add: updateProduct_def deleteProduct_def listProducts_def loginOwner_def
        getLogoUrl_def tx_def)+

lemma invalid_key_DataError:
  assumes "idb w = Opened d" and "to_key ident = None"
  shows "updateProduct w ident updates = (Inl DataError, w)"
    and "deleteProduct w ident = (Inl DataError, w)"
    and "loginOwner w ident password = (Inl DataError, w)"
  using assms
  by (simp_all add: updateProduct_def deleteProduct_def loginOwner_def tx_def)

section \<open>Owner login\<close>

text \<open>
  C1. With the store open, \<open>loginOwner(username, password)\<close> returns true exactly when
  the users store holds a record under that username whose password equals the supplied
  one and whose role is "owner". It then sets the session flag, so that \<open>isOwner()\<close>
  is true; in every other case it returns false and leaves the state, session flag
  included, as it was. \<open>logoutOwner()\<close> clears the flag in any state, so that
  \<open>isOwner()\<close> is false.
\<close>

theorem loginOwner_iff_credentials:
  assumes "idb w = Opened d"
  shows "loginOwner w (JStr u) (JStr pw) =
           (Inr (owner_record d u pw),
            if owner_record d u pw
            then w\<lparr>localStorage := fmupd session_key ''1'' (localStorage w)\<rparr> else w)
         \<and> (owner_record d u pw \<longrightarrow> isOwner (snd (loginOwner w (JStr u) (JStr pw))))
         \<and> (\<not> owner_record d u pw \<longrightarrow>
              isOwner (snd (loginOwner w (JStr u) (JStr pw))) = isOwner w)
         \<and> \<not> isOwner (logoutOwner w')"
proof -
  have ok: "(truthy (idb_get (users d) (KStr u))
             \<and> strict_eq (get_prop (idb_get (users d) (KStr u)) ''password'') (JStr pw)
             \<and> strict_eq (get_prop (idb_get (users d) (KStr u)) ''role'') (JStr ''owner''))
            = owner_record d u pw"
    by (auto simp: owner_record_def idb_get_def strict_eq_JStr get_prop_eq_JStr
             split: option.splits jsval.splits)
  have login: "loginOwner w (JStr u) (JStr pw) =
           (Inr (owner_record d u pw),
            if owner_record d u pw
            then w\<lparr>localStorage := fmupd session_key ''1'' (localStorage w)\<rparr> else w)"
    using assms ok by (simp add: loginOwner_def tx_def Let_def)
  show ?thesis
    unfolding login by (simp add: isOwner_def logoutOwner_def)
qed

theorem loginOwner_witness:
  "idb ex_world = Opened ex_db
   \<and> loginOwner ex_world (JStr ''VKM2009'') (JStr ''VKM1998'') =
       (Inr True, ex_world\<lparr>localStorage := fmupd session_key ''1'' fmempty\<rparr>)
   \<and> isOwner (ex_world\<lparr>localStorage := fmupd session_key ''1'' fmempty\<rparr>)
   \<and> loginOwner ex_world (JStr ''VKM2009'') (JStr ''vkm1998'') = (Inr False, ex_world)
   \<and> loginOwner ex_world (JStr ''nobody'') (JStr ''VKM1998'') = (Inr False, ex_world)
   \<and> \<not> isOwner (logoutOwner (ex_world\<lparr>localStorage := fmupd session_key ''1'' fmempty\<rparr>))"
proof -
  have d: "idb ex_world = Opened ex_db"
    by (simp add: ex_world_def)
  have a: "owner_record ex_db ''VKM2009'' ''VKM1998''"
    by (simp add: owner_record_def ex_db_def seed_owner_def fmlookup_of_list)
  have b: "\<not> owner_record ex_db ''VKM2009'' ''vkm1998''"
    by (simp add: owner_record_def ex_db_def seed_owner_def fmlookup_of_list)
  have c: "\<not> owner_record ex_db ''nobody'' ''VKM1998''"
    by (simp add: owner_record_def ex_db_def)
  have ls: "localStorage ex_world = fmempty"
    by (simp add: ex_world_def)
  show ?thesis
    using loginOwner_iff_credentials [OF d, of "''VKM2009''" "''VKM1998''"
              "ex_world\<lparr>localStorage := fmupd session_key ''1'' fmempty\<rparr>"]
      loginOwner_iff_credentials [OF d, of "''VKM2009''" "''vkm1998''"]
      loginOwner_iff_credentials [OF d, of "''nobody''" "''VKM1998''"]
      a b c d ls
    by (simp add: isOwner_def)
qed

section \<open>addProduct\<close>




section \<open>updateProduct on a missing id\<close>

text \<open>
  C3. With the store open, for every id (a valid key: a string or a number) under which
  the products collection holds no record, and for every value of the updates argument,
  \<open>updateProduct\<close> fails with the "Product not found" error and writes nothing: the
  whole state is as before the call.
\<close>

theorem updateProduct_missing_id:
  assumes "idb w = Opened d" and "to_key ident = Some k" and "map_of (products d) k = None"
  shows "updateProduct w ident updates = (Inl ProductNotFound, w)"
  using assms by (simp add: updateProduct_def tx_def idb_get_def)

theorem updateProduct_missing_id_witness:
  "idb ex_world = Opened ex_db \<and> to_key (JStr ''p-17'') = Some (KStr ''p-17'')
   \<and> map_of (products ex_db) (KStr ''p-17'') = None
   \<and> updateProduct ex_world (JStr ''p-17'')
        (JObj (fmap_of_list [(''price'', JNum (Fin 12))])) = (Inl ProductNotFound, ex_world)"
proof -
  have a: "idb ex_world = Opened ex_db" by (simp add: ex_world_def)
  have b: "to_key (JStr ''p-17'') = Some (KStr ''p-17'')" by simp
  have c: "map_of (products ex_db) (KStr ''p-17'') = None" by (simp add: ex_db_def)
  show ?thesis
    using updateProduct_missing_id [OF a b c] a b c by simp
qed

section \<open>updateProduct and the fields id and createdAt\<close>

text \<open>
  The claim C4 as stated fails: updates that carry an \<open>id\<close> or a \<open>createdAt\<close> overwrite
  those fields. Updating the stored pen (id "u", created at 1001) with
  \<^verbatim>\<open>{id: "v", createdAt: 5}\<close> returns a record with id "v" and createdAt 5, which is
  stored under the key "v" beside the unchanged pen.
\<close>

theorem updateProduct_overwrites_id_and_createdAt:
  "foldl (run ex_sn) ex_fresh [Init, AddProduct ex_pen_input] = ex_shop
   \<and> idb ex_shop = Opened ex_shop_db
   \<and> map_of (products ex_shop_db) (KStr ''u'') = Some ex_pen
   \<and> get_prop ex_pen ''id'' = JStr ''u''
   \<and> get_prop ex_pen ''createdAt'' = JNum (Fin 1001)
   \<and> updateProduct ex_shop (JStr ''u'') ex_rekey =
       (Inr ex_rekeyed,
        ex_shop\<lparr>ticks := 4,
                idb := Opened (ex_shop_db\<lparr>products := [(KStr ''u'', ex_pen), (KStr ''v'', ex_rekeyed)]\<rparr>)\<rparr>)
   \<and> get_prop ex_rekeyed ''id'' = JStr ''v''
   \<and> get_prop ex_rekeyed ''createdAt'' = JNum (Fin 5)"
proof -
  have a: "idb ex_shop = Opened ex_shop_db" by (simp add: ex_shop_def)
  have b: "map_of (products ex_shop_db) (KStr ''u'') = Some ex_pen" by (simp add: ex_shop_db_def)
  have c: "get_prop ex_pen ''id'' = JStr ''u''" "get_prop ex_pen ''createdAt'' = JNum (Fin 1001)"
    "truthy ex_pen"
    by (simp_all add: ex_pen_def fmlookup_of_list)
  have d: "get_prop ex_rekeyed ''id'' = JStr ''v''" "get_prop ex_rekeyed ''createdAt'' = JNum (Fin 5)"
    by (simp_all add: ex_rekeyed_def fmlookup_of_list)
  have t: "Date_now ex_shop = (1003, ex_shop\<lparr>ticks := 4\<rparr>)"
    by (simp add: Date_now_def ex_shop_def ex_clock_def)
  have e: "updateProduct ex_shop (JStr ''u'') ex_rekey =
       (Inr ex_rekeyed,
        ex_shop\<lparr>ticks := 4,
                idb := Opened (ex_shop_db\<lparr>products := [(KStr ''u'', ex_pen), (KStr ''v'', ex_rekeyed)]\<rparr>)\<rparr>)"
    using c(3) d(1)
    by (simp add: updateProduct_def tx_def a idb_get_def b t merge_rekey idb_put_def)
       (simp add: ex_shop_db_def)
  show ?thesis
    by (intro conjI ex_shop_reachable a b c(1,2) d e)
qed

text \<open>
  C4, amended. With the store open, for every product stored under its id and every
  updates value that has no own property named \<open>id\<close> or \<open>createdAt\<close>,
  \<open>updateProduct\<close> returns a record whose \<open>id\<close> and \<open>createdAt\<close> are those of the
  stored record, and stores it under the same id.
\<close>

theorem updateProduct_keeps_id_and_createdAt:
  assumes w: "idb w = Opened d" and k: "to_key ident = Some k"
    and ex: "map_of (products d) k = Some existing" and id: "has_id k existing"
    and no_id: "fmlookup (own_props updates) ''id'' = None"
    and no_created: "fmlookup (own_props updates) ''createdAt'' = None"
  shows "\<exists>next w' d'. updateProduct w ident updates = (Inr next, w')
           \<and> idb w' = Opened d' \<and> map_of (products d') k = Some next
           \<and> get_prop next ''id'' = get_prop existing ''id''
           \<and> get_prop next ''createdAt'' = get_prop existing ''createdAt''"
proof -
  obtain fs where fs: "existing = JObj fs" using has_id_obj [OF id] by blast
  let ?next = "merge_update (JObj fs) updates (clock w (ticks w))"
  have nid: "get_prop ?next ''id'' = get_prop existing ''id''"
    using no_id by (simp add: merge_update_def fs fmdom_notI)
  have ncr: "get_prop ?next ''createdAt'' = get_prop existing ''createdAt''"
    using no_created by (simp add: merge_update_def fs fmdom_notI)
  have "to_key (get_prop ?next ''id'') = Some k"
    using id nid by (simp add: has_id_def)
  from updateProduct_stored [OF w k ex [unfolded fs] this]
  show ?thesis using nid ncr by (simp add: map_of_store_upd)
qed

theorem updateProduct_keeps_id_and_createdAt_witness:
  "idb ex_shop = Opened ex_shop_db
   \<and> to_key (JStr ''u'') = Some (KStr ''u'')
   \<and> map_of (products ex_shop_db) (KStr ''u'') = Some ex_pen
   \<and> has_id (KStr ''u'') ex_pen
   \<and> fmlookup (own_props ex_reprice) ''id'' = None
   \<and> fmlookup (own_props ex_reprice) ''createdAt'' = None
   \<and> (\<exists>next w' d'. updateProduct ex_shop (JStr ''u'') ex_reprice = (Inr next, w')
           \<and> idb w' = Opened d' \<and> map_of (products d') (KStr ''u'') = Some next
           \<and> get_prop next ''id'' = get_prop ex_pen ''id''
           \<and> get_prop next ''createdAt'' = get_prop ex_pen ''createdAt'')"
proof -
  have a: "idb ex_shop = Opened ex_shop_db" by (simp add: ex_shop_def)
  have b: "to_key (JStr ''u'') = Some (KStr ''u'')" by simp
  have c: "map_of (products ex_shop_db) (KStr ''u'') = Some ex_pen" by (simp add: ex_shop_db_def)
  have d: "has_id (KStr ''u'') ex_pen" by (simp add: has_id_def ex_pen_def fmlookup_of_list)
  have e: "fmlookup (own_props ex_reprice) ''id'' = None"
    by (simp add: ex_reprice_def fmlookup_of_list)
  have f: "fmlookup (own_props ex_reprice) ''createdAt'' = None"
    by (simp add: ex_reprice_def fmlookup_of_list)
  show ?thesis
    by (intro conjI a b c d e f updateProduct_keeps_id_and_createdAt [OF a b c d e f])
qed

section \<open>updateProduct with a new price\<close>

text \<open>
  The claim C5 as stated fails in its last part: \<open>updatedAt\<close> is whatever the clock
  reads at the update, which need not be later than \<open>createdAt\<close>. When a page is
  initialised, a pen added and its price updated while the clock reads 1000 (all within
  one tick of the clock), the updated record has \<open>createdAt\<close> = \<open>updatedAt\<close> = 1000.
\<close>

theorem updateProduct_updatedAt_not_later:
  "foldl (run ex_sn) (ex_fresh\<lparr>clock := still_clock\<rparr>) [Init, AddProduct ex_pen_input]
     = ex_quick_shop
   \<and> idb ex_quick_shop = Opened ex_quick_db
   \<and> map_of (products ex_quick_db) (KStr ''u'') = Some ex_quick_pen
   \<and> updateProduct ex_quick_shop (JStr ''u'') ex_reprice =
       (Inr ex_quick_repriced,
        ex_quick_shop\<lparr>ticks := 4,
           idb := Opened (ex_quick_db\<lparr>products := [(KStr ''u'', ex_quick_repriced)]\<rparr>)\<rparr>)
   \<and> get_prop ex_quick_repriced ''createdAt'' = JNum (Fin 1000)
   \<and> get_prop ex_quick_repriced ''updatedAt'' = JNum (Fin 1000)
   \<and> \<not> num_less (Fin 1000) (Fin 1000)"
proof -
  have a: "idb ex_quick_shop = Opened ex_quick_db" by (simp add: ex_quick_shop_def)
  have b: "map_of (products ex_quick_db) (KStr ''u'') = Some ex_quick_pen"
    by (simp add: ex_quick_db_def)
  have c: "truthy ex_quick_pen" by (simp add: ex_quick_pen_def)
  have d: "get_prop ex_quick_repriced ''createdAt'' = JNum (Fin 1000)"
    "get_prop ex_quick_repriced ''updatedAt'' = JNum (Fin 1000)"
    "get_prop ex_quick_repriced ''id'' = JStr ''u''"
    by (simp_all add: ex_quick_repriced_def fmlookup_of_list)
  have t: "Date_now ex_quick_shop = (1000, ex_quick_shop\<lparr>ticks := 4\<rparr>)"
    by (simp add: Date_now_def ex_quick_shop_def still_clock_def)
  have e: "updateProduct ex_quick_shop (JStr ''u'') ex_reprice =
       (Inr ex_quick_repriced,
        ex_quick_shop\<lparr>ticks := 4,
           idb := Opened (ex_quick_db\<lparr>products := [(KStr ''u'', ex_quick_repriced)]\<rparr>)\<rparr>)"
    using c d(3)
    by (simp add: updateProduct_def tx_def a idb_get_def b t merge_quick_reprice idb_put_def)
       (simp add: ex_quick_db_def)
  have f: "\<not> num_less (Fin 1000) (Fin 1000)" by simp
  show ?thesis
    by (intro conjI ex_quick_shop_reachable a b d(1,2) e f)
qed

text \<open>
  C5, amended. With the store open, for every product stored under its id and every
  value \<open>x\<close>, \<open>updateProduct(id, {price: x})\<close> returns and stores under the same id a
  record whose price is \<open>x\<close>, whose every other field except \<open>updatedAt\<close> is the stored
  record's, and whose \<open>updatedAt\<close> is the reading of the clock at the update.
\<close>

theorem updateProduct_price:
  assumes w: "idb w = Opened d" and k: "to_key ident = Some k"
    and ex: "map_of (products d) k = Some existing" and id: "has_id k existing"
  shows "\<exists>next w' d'.
           updateProduct w ident (JObj (fmap_of_list [(''price'', x)])) = (Inr next, w')
           \<and> idb w' = Opened d' \<and> map_of (products d') k = Some next
           \<and> fmlookup (own_props next) ''price'' = Some x
           \<and> (\<forall>f. f \<noteq> ''price'' \<and> f \<noteq> ''updatedAt'' \<longrightarrow>
                  fmlookup (own_props next) f = fmlookup (own_props existing) f)
           \<and> fmlookup (own_props next) ''updatedAt'' = Some (num_of_int (clock w (ticks w)))"
proof -
  obtain fs where fs: "existing = JObj fs" using has_id_obj [OF id] by blast
  let ?u = "JObj (fmap_of_list [(''price'', x)])"
  let ?fs = "fmupd ''updatedAt'' (num_of_int (clock w (ticks w))) (fmupd ''price'' x fs)"
  have m: "merge_update (JObj fs) ?u (clock w (ticks w)) = JObj ?fs"
    by (simp add: merge_update_def)
  have "to_key (get_prop (merge_update (JObj fs) ?u (clock w (ticks w))) ''id'') = Some k"
    unfolding m using id by (simp add: has_id_def fs)
  from updateProduct_stored [OF w k ex [unfolded fs] this]
  have "updateProduct w ident ?u =
          (Inr (JObj ?fs),
           w\<lparr>ticks := Suc (ticks w), idb := Opened (d\<lparr>products := store_upd k (JObj ?fs) (products d)\<rparr>)\<rparr>)"
    unfolding m .
  then show ?thesis by (simp add: map_of_store_upd fs)
qed

theorem updateProduct_price_witness:
  "idb ex_shop = Opened ex_shop_db
   \<and> to_key (JStr ''u'') = Some (KStr ''u'')
   \<and> map_of (products ex_shop_db) (KStr ''u'') = Some ex_pen
   \<and> has_id (KStr ''u'') ex_pen
   \<and> (\<exists>next w' d'.
           updateProduct ex_shop (JStr ''u'') (JObj (fmap_of_list [(''price'', JNum (Fin 15))]))
             = (Inr next, w')
           \<and> idb w' = Opened d' \<and> map_of (products d') (KStr ''u'') = Some next
           \<and> fmlookup (own_props next) ''price'' = Some (JNum (Fin 15))
           \<and> (\<forall>f. f \<noteq> ''price'' \<and> f \<noteq> ''updatedAt'' \<longrightarrow>
                  fmlookup (own_props next) f = fmlookup (own_props ex_pen) f)
           \<and> fmlookup (own_props next) ''updatedAt''
               = Some (num_of_int (clock ex_shop (ticks ex_shop))))
   \<and> num_of_int (clock ex_shop (ticks ex_shop)) = JNum (Fin 1003)"
proof -
  have a: "idb ex_shop = Opened ex_shop_db" by (simp add: ex_shop_def)
  have b: "to_key (JStr ''u'') = Some (KStr ''u'')" by simp
  have c: "map_of (products ex_shop_db) (KStr ''u'') = Some ex_pen" by (simp add: ex_shop_db_def)
  have d: "has_id (KStr ''u'') ex_pen" by (simp add: has_id_def ex_pen_def fmlookup_of_list)
  have e: "num_of_int (clock ex_shop (ticks ex_shop)) = JNum (Fin 1003)"
    by (simp add: num_of_int_def ex_shop_def ex_clock_def)
  show ?thesis
    by (intro conjI a b c d e updateProduct_price [OF a b c d])
qed

section \<open>listProducts\<close>

text \<open>
  The claim C6 as stated fails for the empty category: \<open>listProducts\<close> filters only when
  \<^verbatim>\<open>filter.category\<close> is truthy, so \<^verbatim>\<open>listProducts({category: ""})\<close> returns every
  product. In the shop that holds one pen of category "Stationery" it returns the pen.
\<close>

theorem listProducts_empty_category_lists_all:
  "foldl (run ex_sn) ex_fresh [Init, AddProduct ex_pen_input] = ex_shop
   \<and> listProducts ex_sn ex_shop (JObj (fmap_of_list [(''category'', JStr [])]))
       = (Inr [ex_pen], ex_shop)
   \<and> get_prop ex_pen ''category'' = JStr ''Stationery''"
proof -
  have a: "idb ex_shop = Opened ex_shop_db" by (simp add: ex_shop_def)
  have b: "listProducts ex_sn ex_shop (JObj (fmap_of_list [(''category'', JStr [])]))
       = (Inr [ex_pen], ex_shop)"
    by (simp add: listProducts_def tx_def a ex_shop_db_def idb_getAll_def category_matches_def
          Let_def nullish_def)
  have c: "get_prop ex_pen ''category'' = JStr ''Stationery''"
    by (simp add: ex_pen_def fmlookup_of_list)
  show ?thesis
    by (intro conjI ex_shop_reachable b c)
qed

text \<open>
  C6, amended. With the store open and every stored product stamped with a number as
  \<open>createdAt\<close> (as \<open>addProduct\<close> stamps it), for every category \<open>C\<close> other than the
  empty string \<open>listProducts({category: C})\<close> returns exactly the stored products whose
  category is \<open>C\<close>, each once, newest first; \<open>listProducts()\<close> with no filter, and
  likewise with the empty category, returns all stored products, newest first. The
  state is unchanged.
\<close>

theorem listProducts_by_category:
  assumes w: "idb w = Opened d" and st: "stamped (products d)"
  shows "(\<forall>c. c \<noteq> [] \<longrightarrow>
            (\<exists>rs. listProducts sn w (JObj (fmap_of_list [(''category'', JStr c)])) = (Inr rs, w)
                \<and> mset rs = mset (filter (\<lambda>r. get_prop r ''category'' = JStr c)
                                     (map snd (products d)))
                \<and> newest_first rs))
         \<and> (\<exists>rs. listProducts sn w JUndefined = (Inr rs, w)
                \<and> mset rs = mset (map snd (products d)) \<and> newest_first rs)
         \<and> (\<exists>rs. listProducts sn w (JObj (fmap_of_list [(''category'', JStr [])])) = (Inr rs, w)
                \<and> mset rs = mset (map snd (products d)) \<and> newest_first rs)"
proof (intro conjI allI impI)
  fix c :: string
  assume c: "c \<noteq> []"
  let ?arg = "JObj (fmap_of_list [(''category'', JStr c)])"
  have m: "category_matches ?arg = (\<lambda>r. get_prop r ''category'' = JStr c)"
    using c by (simp add: category_matches_def strict_eq_JStr fun_eq_iff)
  have arg: "?arg \<noteq> JNull" "(if ?arg = JUndefined then JObj fmempty else ?arg) = ?arg"
    by simp_all
  show "\<exists>rs. listProducts sn w ?arg = (Inr rs, w)
           \<and> mset rs = mset (filter (\<lambda>r. get_prop r ''category'' = JStr c) (map snd (products d)))
           \<and> newest_first rs"
    by (rule listProducts_stamped [OF w st arg(1), of sn, unfolded arg(2) m])
next
  have m: "category_matches (JObj fmempty) = (\<lambda>r. True)"
    by (simp add: category_matches_def fun_eq_iff)
  show "\<exists>rs. listProducts sn w JUndefined = (Inr rs, w)
           \<and> mset rs = mset (map snd (products d)) \<and> newest_first rs"
    using listProducts_stamped [OF w st, of JUndefined sn] by (simp add: m)
next
  let ?arg = "JObj (fmap_of_list [(''category'', JStr [])])"
  have m: "category_matches ?arg = (\<lambda>r. True)"
    by (simp add: category_matches_def fun_eq_iff)
  have arg: "?arg \<noteq> JNull" "(if ?arg = JUndefined then JObj fmempty else ?arg) = ?arg"
    by simp_all
  have all: "filter (\<lambda>r. True) (map snd (products d)) = map snd (products d)"
    by simp
  show "\<exists>rs. listProducts sn w ?arg = (Inr rs, w)
           \<and> mset rs = mset (map snd (products d)) \<and> newest_first rs"
    by (rule listProducts_stamped [OF w st arg(1), of sn, unfolded arg(2) m all])
qed

theorem listProducts_by_category_witness:
  "idb ex_shop = Opened ex_shop_db
   \<and> stamped (products ex_shop_db)
   \<and> listProducts ex_sn ex_shop (JObj (fmap_of_list [(''category'', JStr ''Stationery'')]))
       = (Inr [ex_pen], ex_shop)
   \<and> listProducts ex_sn ex_shop (JObj (fmap_of_list [(''category'', JStr ''Furniture'')]))
       = (Inr [], ex_shop)
   \<and> (\<exists>rs. listProducts ex_sn ex_shop JUndefined = (Inr rs, ex_shop)
          \<and> mset rs = mset (map snd (products ex_shop_db)) \<and> newest_first rs)"
proof -
  have a: "idb ex_shop = Opened ex_shop_db" by (simp add: ex_shop_def)
  have b: "stamped (products ex_shop_db)"
    by (simp add: stamped_def ex_shop_db_def ex_pen_def fmlookup_of_list)
  have pen: "get_prop ex_pen ''category'' = JStr ''Stationery''"
    by (simp add: ex_pen_def fmlookup_of_list)
  note inst = listProducts_by_category [OF a b, of ex_sn]
  have "''Stationery'' \<noteq> []" by simp
  then obtain rs where rs:
    "listProducts ex_sn ex_shop (JObj (fmap_of_list [(''category'', JStr ''Stationery'')]))
       = (Inr rs, ex_shop)"
    "mset rs = mset (filter (\<lambda>r. get_prop r ''category'' = JStr ''Stationery'')
                       (map snd (products ex_shop_db)))"
    using inst by blast
  have "mset rs = {#ex_pen#}" using rs(2) pen by (simp add: ex_shop_db_def)
  then have c: "listProducts ex_sn ex_shop (JObj (fmap_of_list [(''category'', JStr ''Stationery'')]))
       = (Inr [ex_pen], ex_shop)"
    using rs(1) by simp
  have "''Furniture'' \<noteq> []" by simp
  then obtain rs' where rs':
    "listProducts ex_sn ex_shop (JObj (fmap_of_list [(''category'', JStr ''Furniture'')]))
       = (Inr rs', ex_shop)"
    "mset rs' = mset (filter (\<lambda>r. get_prop r ''category'' = JStr ''Furniture'')
                       (map snd (products ex_shop_db)))"
    using inst by blast
  have "mset rs' = {#}" using rs'(2) pen by (simp add: ex_shop_db_def)
  then have d: "listProducts ex_sn ex_shop (JObj (fmap_of_list [(''category'', JStr ''Furniture'')]))
       = (Inr [], ex_shop)"
    using rs'(1) by simp
  have e: "\<exists>rs. listProducts ex_sn ex_shop JUndefined = (Inr rs, ex_shop)
          \<and> mset rs = mset (map snd (products ex_shop_db)) \<and> newest_first rs"
    using inst by blast
  show ?thesis
    by (intro conjI a b c d e)
qed

section \<open>deleteProduct\<close>

text \<open>
  C7. With the store open, for every id (a valid key), \<open>deleteProduct(id)\<close> succeeds
  whether or not a record is stored under the id; afterwards no record is stored under
  the id, and no record that \<open>listProducts\<close> returns carries it (in a collection whose
  records are stored under their ids; \<open>listProducts()\<close> does return when they are stamped
  with a creation time); a second \<open>deleteProduct(id)\<close> succeeds as well and leaves the
  state, the products collection included, unchanged.
\<close>

theorem deleteProduct_idempotent:
  assumes "idb w = Opened d" and "to_key ident = Some k"
  shows "\<exists>d1. deleteProduct w ident = (Inr (), w\<lparr>idb := Opened d1\<rparr>)
           \<and> map_of (products d1) k = None
           \<and> (keyed_by_id (products d) \<longrightarrow>
                (\<forall>arg rs. fst (listProducts sn (w\<lparr>idb := Opened d1\<rparr>) arg) = Inr rs \<longrightarrow>
                   (\<forall>r\<in>set rs. \<not> has_id k r)))
           \<and> (stamped (products d) \<longrightarrow>
                (\<exists>rs. fst (listProducts sn (w\<lparr>idb := Opened d1\<rparr>) JUndefined) = Inr rs))
           \<and> deleteProduct (w\<lparr>idb := Opened d1\<rparr>) ident = (Inr (), w\<lparr>idb := Opened d1\<rparr>)"
proof -
  let ?d1 = "d\<lparr>products := idb_delete (products d) k\<rparr>"
  let ?w1 = "w\<lparr>idb := Opened ?d1\<rparr>"
  have first: "deleteProduct w ident = (Inr (), ?w1)"
    using assms by (simp add: deleteProduct_def tx_def)
  have gone: "map_of (products ?d1) k = None"
    by (auto simp: idb_delete_def map_of_eq_None_iff)
  have again: "idb_delete (idb_delete (products d) k) k = idb_delete (products d) k"
    by (simp add: idb_delete_def)
  have second: "deleteProduct ?w1 ident = (Inr (), ?w1)"
    using assms(2) by (simp add: deleteProduct_def tx_def again)
  have listed: "\<not> has_id k r"
    if keyed: "keyed_by_id (products d)" and rs: "fst (listProducts sn ?w1 arg) = Inr rs"
      and r: "r \<in> set rs" for arg rs r
  proof -
    have "set rs \<subseteq> snd ` set (products ?d1)"
      by (rule listProducts_sublist [OF _ rs]) simp
    then obtain k' where e: "(k', r) \<in> set (products d)" and k': "k' \<noteq> k"
      using r by (auto simp: idb_delete_def)
    have "to_key (get_prop r ''id'') = Some k'"
      using keyed e by (auto simp: keyed_by_id_def list_all_iff)
    then show ?thesis using k' by (simp add: has_id_def)
  qed
  have lists: "\<exists>rs. fst (listProducts sn ?w1 JUndefined) = Inr rs" if st: "stamped (products d)"
  proof -
    have "stamped (products ?d1)"
      using st by (simp add: stamped_def idb_delete_def list_all_iff)
    moreover have "idb ?w1 = Opened ?d1" by simp
    ultimately obtain rs where "listProducts sn ?w1 JUndefined = (Inr rs, ?w1)"
      using listProducts_stamped [of ?w1 ?d1 JUndefined sn] by auto
    then show ?thesis by simp
  qed
  show ?thesis
    using first gone second listed lists by blast
qed

theorem deleteProduct_idempotent_witness:
  "idb ex_shop = Opened ex_shop_db \<and> to_key (JStr ''u'') = Some (KStr ''u'')
   \<and> (\<exists>d1. deleteProduct ex_shop (JStr ''u'') = (Inr (), ex_shop\<lparr>idb := Opened d1\<rparr>)
           \<and> map_of (products d1) (KStr ''u'') = None
           \<and> (keyed_by_id (products ex_shop_db) \<longrightarrow>
                (\<forall>arg rs. fst (listProducts ex_sn (ex_shop\<lparr>idb := Opened d1\<rparr>) arg) = Inr rs \<longrightarrow>
                   (\<forall>r\<in>set rs. \<not> has_id (KStr ''u'') r)))
           \<and> (stamped (products ex_shop_db) \<longrightarrow>
                (\<exists>rs. fst (listProducts ex_sn (ex_shop\<lparr>idb := Opened d1\<rparr>) JUndefined) = Inr rs))
           \<and> deleteProduct (ex_shop\<lparr>idb := Opened d1\<rparr>) (JStr ''u'')
               = (Inr (), ex_shop\<lparr>idb := Opened d1\<rparr>))
   \<and> keyed_by_id (products ex_shop_db)
   \<and> stamped (products ex_shop_db)
   \<and> deleteProduct ex_shop (JStr ''u'') = (Inr (), ex_shop\<lparr>idb := Opened ex_db\<rparr>)
   \<and> listProducts ex_sn (ex_shop\<lparr>idb := Opened ex_db\<rparr>) JUndefined
        = (Inr [], ex_shop\<lparr>idb := Opened ex_db\<rparr>)"
proof -
  have a: "idb ex_shop = Opened ex_shop_db" by (simp add: ex_shop_def)
  have b: "to_key (JStr ''u'') = Some (KStr ''u'')" by simp
  have c: "keyed_by_id (products ex_shop_db)"
    by (simp add: keyed_by_id_def ex_shop_db_def ex_pen_def fmlookup_of_list)
  have s: "stamped (products ex_shop_db)"
    by (simp add: stamped_def ex_shop_db_def ex_pen_def fmlookup_of_list)
  have d: "deleteProduct ex_shop (JStr ''u'') = (Inr (), ex_shop\<lparr>idb := Opened ex_db\<rparr>)"
    by (simp add: deleteProduct_def tx_def ex_shop_def ex_shop_db_def ex_db_def idb_delete_def)
  have e: "listProducts ex_sn (ex_shop\<lparr>idb := Opened ex_db\<rparr>) JUndefined
        = (Inr [], ex_shop\<lparr>idb := Opened ex_db\<rparr>)"
    by (simp add: listProducts_def tx_def ex_db_def idb_getAll_def)
  show ?thesis
    by (intro conjI a b c s d e deleteProduct_idempotent [OF a b])
qed

section \<open>init\<close>

text \<open>
  C8. \<open>init()\<close> succeeds whenever the database can be opened. After a successful
  \<open>init()\<close> the database is open and holds a business info, and a second \<open>init()\<close>
  returns true and changes nothing: the settings, the users store with its seeded owner
  row and every other part of the state are as the first call left them; the same holds
  when the second call is made after a page reload, by which the module has lost its
  connection. In general, whenever the database exists and its "business" setting is
  present, \<open>init()\<close> writes to no store.
\<close>

theorem init_idempotent:
  "(\<not> open_fails w \<longrightarrow> (\<exists>w1. init w = (Inr True, w1)))
   \<and> (\<forall>b w1. init w = (Inr b, w1) \<longrightarrow>
         (\<exists>d1. idb w1 = Opened d1 \<and> has_business d1
               \<and> init w1 = (Inr True, w1)
               \<and> (\<not> open_fails w1 \<longrightarrow> init (w1\<lparr>idb := Closed d1\<rparr>) = (Inr True, w1))))
   \<and> (\<forall>d. has_business d \<and> (idb w = Opened d \<or> (idb w = Closed d \<and> \<not> open_fails w)) \<longrightarrow>
         init w = (Inr True, w\<lparr>idb := Opened d\<rparr>))"
proof (intro conjI allI impI)
  show "\<exists>w1. init w = (Inr True, w1)" if "\<not> open_fails w"
    by (rule init_succeeds [OF that])
next
  fix b w1 assume i: "init w = (Inr b, w1)"
  then obtain d1 where d1: "idb w1 = Opened d1" "has_business d1"
    using init_result by blast
  have same: "w1\<lparr>idb := Opened d1\<rparr> = w1" using d1(1) by simp
  have again: "init w1 = (Inr True, w1)"
    using init_opened [OF d1(1)] d1(2) by simp
  have reopen: "init (w1\<lparr>idb := Closed d1\<rparr>) = (Inr True, w1)" if "\<not> open_fails w1"
  proof -
    have "init (w1\<lparr>idb := Closed d1\<rparr>) = init (w1\<lparr>idb := Opened d1\<rparr>)"
      using init_closed [of "w1\<lparr>idb := Closed d1\<rparr>" d1] that by simp
    then show ?thesis using again same by simp
  qed
  show "\<exists>d1. idb w1 = Opened d1 \<and> has_business d1 \<and> init w1 = (Inr True, w1)
              \<and> (\<not> open_fails w1 \<longrightarrow> init (w1\<lparr>idb := Closed d1\<rparr>) = (Inr True, w1))"
    using d1 again reopen by blast
next
  fix d assume h: "has_business d \<and> (idb w = Opened d \<or> (idb w = Closed d \<and> \<not> open_fails w))"
  show "init w = (Inr True, w\<lparr>idb := Opened d\<rparr>)"
  proof (cases "idb w = Opened d")
    case True
    then have "w\<lparr>idb := Opened d\<rparr> = w" by simp
    then show ?thesis using init_opened [OF True] h by simp
  next
    case False
    then have c: "idb w = Closed d" "\<not> open_fails w" using h by auto
    have "init (w\<lparr>idb := Opened d\<rparr>) = (Inr True, w\<lparr>idb := Opened d\<rparr>)"
      using init_opened [of "w\<lparr>idb := Opened d\<rparr>" d] h by simp
    then show ?thesis using init_closed [OF c] by simp
  qed
qed

theorem init_idempotent_witness:
  "\<not> open_fails ex_fresh
   \<and> init ex_fresh = (Inr True, ex_world)
   \<and> idb ex_world = Opened ex_db
   \<and> has_business ex_db
   \<and> init ex_world = (Inr True, ex_world)
   \<and> \<not> open_fails ex_world
   \<and> init (ex_world\<lparr>idb := Closed ex_db\<rparr>) = (Inr True, ex_world)"
proof -
  have a: "\<not> open_fails ex_fresh" by (simp add: ex_fresh_def)
  have db: "with_default_business (created_db 1000) = ex_db"
    by (simp add: with_default_business_def created_db_def ex_db_def ex_business_row_def)
  have nb: "\<not> has_business (created_db 1000)"
    by (simp add: has_business_def created_db_def)
  have "init ex_fresh = init (ex_fresh\<lparr>ticks := Suc (ticks ex_fresh),
          idb := Opened (created_db (clock ex_fresh (ticks ex_fresh)))\<rparr>)"
    by (rule init_absent) (simp_all add: ex_fresh_def)
  also have "\<dots> = (Inr True, ex_world)"
    using nb db
    by (simp add: init_opened [where d = "created_db 1000"] ex_fresh_def ex_world_def ex_clock_def)
  finally have b: "init ex_fresh = (Inr True, ex_world)" .
  have c: "idb ex_world = Opened ex_db" by (simp add: ex_world_def)
  have d: "\<not> open_fails ex_world" by (simp add: ex_world_def)
  from init_idempotent [of ex_fresh] b obtain d1 where d1: "idb ex_world = Opened d1"
    "has_business d1" "init ex_world = (Inr True, ex_world)"
    "\<not> open_fails ex_world \<longrightarrow> init (ex_world\<lparr>idb := Closed d1\<rparr>) = (Inr True, ex_world)"
    by blast
  have "d1 = ex_db" using d1(1) c by simp
  then show ?thesis using a b c d d1 by simp
qed

section \<open>The logo\<close>

text \<open>
  C9. With the store open, for every file, \<open>setLogo(file)\<close> succeeds and a following
  \<open>getLogoUrl()\<close> returns a URL string, not null: the URL that \<open>createObjectURL\<close>
  issued for the stored blob, which is the file. In a state whose settings hold nothing
  under "logoMediaId", as before any \<open>setLogo\<close>, \<open>getLogoUrl()\<close> returns null.
\<close>

theorem setLogo_then_getLogoUrl:
  assumes "idb w = Opened d"
  shows "(\<exists>mediaId w1 w2.
            setLogo w (JFile n t b) = (Inr mediaId, w1)
            \<and> getLogoUrl w1 = (Inr (JStr (url_names w (length (object_urls w)))), w2)
            \<and> object_urls w2 = object_urls w @ [JFile n t b])
         \<and> (map_of (settings d) (KStr ''logoMediaId'') = None \<longrightarrow>
              getLogoUrl w = (Inr JNull, w))"
proof -
  have "getLogoUrl w = (Inr JNull, w)" if "map_of (settings d) (KStr ''logoMediaId'') = None"
    using assms that by (simp add: getLogoUrl_def tx_def idb_get_def)
  moreover have "\<exists>mediaId w1 w2.
            setLogo w (JFile n t b) = (Inr mediaId, w1)
            \<and> getLogoUrl w1 = (Inr (JStr (url_names w (length (object_urls w)))), w2)
            \<and> object_urls w2 = object_urls w @ [JFile n t b]"
    using assms
    by (cases "randomUUID w")
       (simp_all add: setLogo_def saveMedia_def media_literal_def fresh_id_def Date_now_def tx_def idb_put_def
          nullish_def fmlookup_of_list map_of_store_upd getLogoUrl_def getMediaUrl_def
          idb_get_def createObjectURL_def Let_def num_of_int_def)
  ultimately show ?thesis by blast
qed

theorem setLogo_then_getLogoUrl_witness:
  "idb ex_world = Opened ex_db
   \<and> (\<exists>mediaId w1 w2.
          setLogo ex_world (JFile ''logo.png'' ''image/png'' [137, 80, 78, 71]) = (Inr mediaId, w1)
          \<and> getLogoUrl w1 = (Inr (JStr (url_names ex_world (length (object_urls ex_world)))), w2)
          \<and> object_urls w2
              = object_urls ex_world @ [JFile ''logo.png'' ''image/png'' [137, 80, 78, 71]])
   \<and> url_names ex_world (length (object_urls ex_world)) = ''blob:b''
   \<and> map_of (settings ex_db) (KStr ''logoMediaId'') = None
   \<and> getLogoUrl ex_world = (Inr JNull, ex_world)"
proof -
  have a: "idb ex_world = Opened ex_db" by (simp add: ex_world_def)
  have b: "map_of (settings ex_db) (KStr ''logoMediaId'') = None" by (simp add: ex_db_def)
  have c: "url_names ex_world (length (object_urls ex_world)) = ''blob:b''"
    by (simp add: ex_world_def ex_url_def)
  note inst = setLogo_then_getLogoUrl
    [OF a, of "''logo.png''" "''image/png''" "[137, 80, 78, 71]"]
  have d: "getLogoUrl ex_world = (Inr JNull, ex_world)"
    using inst b by blast
  show ?thesis
    by (intro conjI a b c d conjunct1 [OF inst])
qed

section \<open>Product ids are unique\<close>

text \<open>
  C10. In a state where every product is stored under its own id and no two products
  under the same id (as in the empty collection a new database starts with), the same
  holds after every sequence of calls of the public interface, whether they return or
  throw; and in such a state the records \<open>listProducts\<close> returns have pairwise
  different ids. In particular \<open>addProduct\<close> with a supplied id under which a record is
  already stored succeeds and replaces that record in place: the collection has the
  same keys in the same order as before, and the new product is the record under the id.
\<close>

theorem product_ids_stay_unique:
  "(ids_unique w \<longrightarrow> ids_unique (foldl (run sn) w calls))
   \<and> (\<forall>d arg rs. ids_unique w \<and> idb w = Opened d \<and> fst (listProducts sn w arg) = Inr rs \<longrightarrow>
         distinct (map (\<lambda>r. get_prop r ''id'') rs))
   \<and> (\<forall>d k price.
         idb w = Opened d \<and> truthy (get_prop p ''id'') \<and> to_key (get_prop p ''id'') = Some k
         \<and> k \<in> fst ` set (products d)
         \<and> to_number sn (js_or (get_prop p ''price'') (JNum (Fin 0))) = Inr price \<longrightarrow>
         (\<exists>product w' d'. addProduct sn w p = (Inr product, w') \<and> idb w' = Opened d'
            \<and> get_prop product ''id'' = get_prop p ''id''
            \<and> map fst (products d') = map fst (products d)
            \<and> map_of (products d') = (map_of (products d))(k \<mapsto> product)))"
proof (intro conjI allI impI)
  show "ids_unique (foldl (run sn) w calls)" if "ids_unique w"
    by (rule ids_unique_calls [OF that])
next
  fix d arg rs
  assume h: "ids_unique w \<and> idb w = Opened d \<and> fst (listProducts sn w arg) = Inr rs"
  then have "unique_keys (products d)" "keyed_by_id (products d)"
    by (auto simp: ids_unique_def products_of_def)
  then have "distinct (map (\<lambda>r. get_prop r ''id'') (map snd (products d)))"
    by (rule keyed_distinct_ids)
  moreover have "mset rs \<subseteq># mset (map snd (products d))"
    using h by (intro listProducts_submset [of w d sn arg]) simp_all
  ultimately show "distinct (map (\<lambda>r. get_prop r ''id'') rs)"
    by (rule distinct_map_submset)
next
  fix d k price
  assume "idb w = Opened d \<and> truthy (get_prop p ''id'') \<and> to_key (get_prop p ''id'') = Some k
         \<and> k \<in> fst ` set (products d)
         \<and> to_number sn (js_or (get_prop p ''price'') (JNum (Fin 0))) = Inr price"
  then show "\<exists>product w' d'. addProduct sn w p = (Inr product, w') \<and> idb w' = Opened d'
            \<and> get_prop product ''id'' = get_prop p ''id''
            \<and> map fst (products d') = map fst (products d)
            \<and> map_of (products d') = (map_of (products d))(k \<mapsto> product)"
    by (intro addProduct_upsert) simp_all
qed

theorem product_ids_stay_unique_witness:
  "ids_unique ex_fresh
   \<and> ids_unique ex_shop
   \<and> ids_unique (foldl (run ex_sn) ex_shop
        [AddProduct ex_pencil,
         UpdateProduct (JStr ''u'') (JObj (fmap_of_list [(''id'', JStr ''v'')])),
         DeleteProduct (JStr ''u'')])
   \<and> idb ex_shop = Opened ex_shop_db
   \<and> listProducts ex_sn ex_shop JUndefined = (Inr [ex_pen], ex_shop)
   \<and> distinct (map (\<lambda>r. get_prop r ''id'') [ex_pen])
   \<and> truthy (get_prop ex_pencil ''id'')
   \<and> to_key (get_prop ex_pencil ''id'') = Some (KStr ''u'')
   \<and> KStr ''u'' \<in> fst ` set (products ex_shop_db)
   \<and> to_number ex_sn (js_or (get_prop ex_pencil ''price'') (JNum (Fin 0))) = Inr (Fin 0)
   \<and> (\<exists>product w' d'. addProduct ex_sn ex_shop ex_pencil = (Inr product, w')
          \<and> idb w' = Opened d'
          \<and> get_prop product ''id'' = get_prop ex_pencil ''id''
          \<and> map fst (products d') = map fst (products ex_shop_db)
          \<and> map_of (products d') = (map_of (products ex_shop_db))(KStr ''u'' \<mapsto> product))"
proof -
  have a: "ids_unique ex_fresh"
    by (simp add: ids_unique_def products_of_def ex_fresh_def unique_keys_def keyed_by_id_def)
  have b: "ids_unique ex_shop"
    by (simp add: ids_unique_def products_of_def ex_shop_def ex_shop_db_def unique_keys_def
          keyed_by_id_def ex_pen_def fmlookup_of_list)
  have c: "idb ex_shop = Opened ex_shop_db" by (simp add: ex_shop_def)
  have d: "listProducts ex_sn ex_shop JUndefined = (Inr [ex_pen], ex_shop)"
    by (simp add: listProducts_def tx_def c ex_shop_db_def idb_getAll_def category_matches_def
          Let_def nullish_def)
  have e: "truthy (get_prop ex_pencil ''id'')"
    "to_key (get_prop ex_pencil ''id'') = Some (KStr ''u'')"
    "to_number ex_sn (js_or (get_prop ex_pencil ''price'') (JNum (Fin 0))) = Inr (Fin 0)"
    by (simp_all add: ex_pencil_def fmlookup_of_list js_or_def)
  have f: "KStr ''u'' \<in> fst ` set (products ex_shop_db)" by (simp add: ex_shop_db_def)
  note inst = product_ids_stay_unique [of ex_shop ex_sn
        "[AddProduct ex_pencil,
          UpdateProduct (JStr ''u'') (JObj (fmap_of_list [(''id'', JStr ''v'')])),
          DeleteProduct (JStr ''u'')]" ex_pencil]
  have g: "ids_unique (foldl (run ex_sn) ex_shop
        [AddProduct ex_pencil,
         UpdateProduct (JStr ''u'') (JObj (fmap_of_list [(''id'', JStr ''v'')])),
         DeleteProduct (JStr ''u'')])"
    using inst b by blast
  have h: "distinct (map (\<lambda>r. get_prop r ''id'') [ex_pen])"
    using inst b c d by (metis fst_conv)
  have i: "\<exists>product w' d'. addProduct ex_sn ex_shop ex_pencil = (Inr product, w')
          \<and> idb w' = Opened d'
          \<and> get_prop product ''id'' = get_prop ex_pencil ''id''
          \<and> map fst (products d') = map fst (products ex_shop_db)
          \<and> map_of (products d') = (map_of (products ex_shop_db))(KStr ''u'' \<mapsto> product)"
    using inst c e f by blast
  show ?thesis
    by (intro conjI a b c d e f g h i)
qed

end
